theory Spec2Isabelle
  imports Main "HOL-Library.Word" "HOL-Library.Sublist"
begin

unbundle bit_operations_syntax

section \<open>JavaScript strings\<close>

text \<open>
  A JavaScript string is a sequence of UTF-16 code units, and the regular expressions of
  \<^verbatim>\<open>script.js\<close> (none carries the \<^verbatim>\<open>u\<close> flag) work on code units. A byte of a
  \<^verbatim>\<open>Uint8Array\<close> is an 8-bit word.
\<close>

type_synonym jschar = "16 word"
type_synonym jsstring = "jschar list"
type_synonym byte = "8 word"

text \<open>String literals of the source, written as ASCII text.\<close>

definition js :: "string \<Rightarrow> jsstring" where
  "js s = map of_char s"

text \<open>\<^verbatim>\<open>s.startsWith(p)\<close> and \<^verbatim>\<open>s.includes(p)\<close>.\<close>

definition startsWith :: "jsstring \<Rightarrow> jsstring \<Rightarrow> bool" where
  "startsWith s p \<longleftrightarrow> take (length p) s = p"

fun includes_js :: "jsstring \<Rightarrow> jsstring \<Rightarrow> bool" where
  "includes_js [] p \<longleftrightarrow> p = []"
| "includes_js (c # cs) p \<longleftrightarrow> startsWith (c # cs) p \<or> includes_js cs p"

text \<open>\<^verbatim>\<open>s.indexOf(c)\<close> for a one-character pattern: the first index, or \<open>-1\<close>.\<close>

fun indexOf :: "jsstring \<Rightarrow> jschar \<Rightarrow> int" where
  "indexOf [] c = -1"
| "indexOf (x # xs) c =
     (if x = c then 0 else (let i = indexOf xs c in if i = -1 then -1 else i + 1))"

text \<open>
  \<^verbatim>\<open>s.substring(a, b)\<close> and \<^verbatim>\<open>s.substring(a)\<close>: negative arguments count as 0, arguments
  beyond the length as the length, and the two arguments are swapped when \<open>a > b\<close>.
\<close>

definition substring :: "jsstring \<Rightarrow> int \<Rightarrow> int \<Rightarrow> jsstring" where
  "substring s a b =
     (let a' = nat a; b' = nat b
      in take (max a' b' - min a' b') (drop (min a' b') s))"

definition substring_from :: "jsstring \<Rightarrow> int \<Rightarrow> jsstring" where
  "substring_from s a = drop (nat a) s"

text \<open>\<^verbatim>\<open>String(n)\<close> for an integer, as a template literal renders it.\<close>

function digits10 :: "nat \<Rightarrow> jsstring" where
  "digits10 n = (if n < 10 then [0x30 + of_nat n] else digits10 (n div 10) @ [0x30 + of_nat (n mod 10)])"
  by pat_completeness auto
termination
  by (relation "measure id") auto

declare digits10.simps [simp del]

definition number_toString :: "int \<Rightarrow> jsstring" where
  "number_toString i = (if i < 0 then 0x2D # digits10 (nat (- i)) else digits10 (nat i))"

section \<open>Regular expressions with the global flag\<close>

text \<open>
  The regular expressions of \<^verbatim>\<open>cleanSerialOutput\<close> are sequences of single-character
  classes, one of them possibly under a greedy \<^verbatim>\<open>*\<close> or a lazy \<^verbatim>\<open>*?\<close>. \<open>rmatch\<close> is the
  backtracking matcher of ECMAScript on this fragment: it answers whether the pattern
  matches at the start of the string, and with how many code units. A greedy star first
  tries one more character and falls back to the rest of the pattern; a lazy star first
  tries the rest of the pattern and only then one more character.
\<close>

datatype atom =
    One "jschar \<Rightarrow> bool"
  | ManyGreedy "jschar \<Rightarrow> bool"
  | ManyLazy "jschar \<Rightarrow> bool"

fun rmatch :: "atom list \<Rightarrow> jsstring \<Rightarrow> nat option" where
  "rmatch [] s = Some 0"
| "rmatch (One p # as) [] = None"
| "rmatch (One p # as) (c # cs) = (if p c then map_option Suc (rmatch as cs) else None)"
| "rmatch (ManyGreedy p # as) [] = rmatch as []"
| "rmatch (ManyGreedy p # as) (c # cs) =
     (if p c
      then (case rmatch (ManyGreedy p # as) cs of
              Some n \<Rightarrow> Some (Suc n)
            | None \<Rightarrow> rmatch as (c # cs))
      else rmatch as (c # cs))"
| "rmatch (ManyLazy p # as) s =
     (case rmatch as s of
        Some n \<Rightarrow> Some n
      | None \<Rightarrow> (case s of
                   [] \<Rightarrow> None
                 | c # cs \<Rightarrow> if p c then map_option Suc (rmatch (ManyLazy p # as) cs) else None))"

text \<open>
  \<^verbatim>\<open>s.replace(re, rep)\<close> for a pattern with the \<^verbatim>\<open>g\<close> flag and a replacement without
  \<^verbatim>\<open>$\<close>: the leftmost match is replaced and the search goes on behind it; after an empty
  match the next character is kept and the search goes on behind that character.
\<close>

fun js_replace :: "atom list \<Rightarrow> jsstring \<Rightarrow> jsstring \<Rightarrow> jsstring" where
  "js_replace re rep [] = (case rmatch re [] of Some _ \<Rightarrow> rep | None \<Rightarrow> [])"
| "js_replace re rep (c # cs) =
     (case rmatch re (c # cs) of
        None \<Rightarrow> c # js_replace re rep cs
      | Some 0 \<Rightarrow> rep @ c # js_replace re rep cs
      | Some (Suc n) \<Rightarrow> rep @ js_replace re rep (drop n cs))"

text \<open>The character classes of the source.\<close>

definition is_char :: "jschar \<Rightarrow> jschar \<Rightarrow> bool" where
  "is_char k c \<longleftrightarrow> c = k"

text \<open>\<^verbatim>\<open>[0-9;]\<close>\<close>

definition digit_or_semicolon :: "jschar \<Rightarrow> bool" where
  "digit_or_semicolon c \<longleftrightarrow> (0x30 \<le> c \<and> c \<le> 0x39) \<or> c = 0x3B"

text \<open>\<^verbatim>\<open>[a-zA-Z]\<close>\<close>

definition ascii_letter :: "jschar \<Rightarrow> bool" where
  "ascii_letter c \<longleftrightarrow> (0x61 \<le> c \<and> c \<le> 0x7A) \<or> (0x41 \<le> c \<and> c \<le> 0x5A)"

text \<open>\<^verbatim>\<open>.\<close> without the \<^verbatim>\<open>s\<close> flag: every code unit but the four line terminators.\<close>

definition dot :: "jschar \<Rightarrow> bool" where
  "dot c \<longleftrightarrow> c \<noteq> 0x0A \<and> c \<noteq> 0x0D \<and> c \<noteq> 0x2028 \<and> c \<noteq> 0x2029"

text \<open>\<^verbatim>\<open>[\x07\x5C]\<close>\<close>

definition bel_or_backslash :: "jschar \<Rightarrow> bool" where
  "bel_or_backslash c \<longleftrightarrow> c = 0x07 \<or> c = 0x5C"

text \<open>\<^verbatim>\<open>[\x00-\x09\x0B-\x1F\x7F-\x9F]\<close>\<close>

definition control_byte :: "jschar \<Rightarrow> bool" where
  "control_byte c \<longleftrightarrow> c \<le> 0x09 \<or> (0x0B \<le> c \<and> c \<le> 0x1F) \<or> (0x7F \<le> c \<and> c \<le> 0x9F)"

text \<open>The seven patterns of \<^verbatim>\<open>cleanSerialOutput\<close>, in the order of the source.\<close>

definition re_csi :: "atom list" where
  "re_csi = [One (is_char 0x1B), One (is_char 0x5B), ManyGreedy digit_or_semicolon, One ascii_letter]"

definition re_osc_bel :: "atom list" where
  "re_osc_bel = [One (is_char 0x1B), One (is_char 0x5D), One (is_char 0x30), One (is_char 0x3B),
                 ManyLazy dot, One (is_char 0x07)]"

definition re_osc_backslash :: "atom list" where
  "re_osc_backslash = [One (is_char 0x1B), One (is_char 0x5D), One (is_char 0x30), One (is_char 0x3B),
                       ManyLazy dot, One (is_char 0x5C)]"

definition re_osc_either :: "atom list" where
  "re_osc_either = [One (is_char 0x1B), One (is_char 0x5D), One (is_char 0x30), One (is_char 0x3B),
                    ManyLazy dot, One bel_or_backslash]"

definition re_control :: "atom list" where
  "re_control = [One control_byte]"

definition re_crlf :: "atom list" where
  "re_crlf = [One (is_char 0x0D), One (is_char 0x0A)]"

definition re_cr :: "atom list" where
  "re_cr = [One (is_char 0x0D)]"

section \<open>The line cleaner\<close>

definition cleanSerialOutput :: "jsstring \<Rightarrow> jsstring" where
  "cleanSerialOutput text =
     js_replace re_cr []
       (js_replace re_crlf [0x0A]
         (js_replace re_control []
           (js_replace re_osc_either []
             (js_replace re_osc_backslash []
               (js_replace re_osc_bel []
                 (js_replace re_csi [] text))))))"

section \<open>Firmware bytes as a binary string\<close>

text \<open>\<^verbatim>\<open>String.fromCharCode(b)\<close> for a byte \<open>b\<close> is the code unit of the same value.\<close>

definition fromCharCode :: "byte \<Rightarrow> jschar" where
  "fromCharCode b = ucast b"

text \<open>The \<^verbatim>\<open>for\<close> loop of \<^verbatim>\<open>arrayBufferToBinaryString\<close>, with its index and accumulator.\<close>

function arrayBufferToBinaryString_loop :: "byte list \<Rightarrow> nat \<Rightarrow> jsstring \<Rightarrow> jsstring" where
  "arrayBufferToBinaryString_loop bytes i binaryString =
     (if i < length bytes
      then arrayBufferToBinaryString_loop bytes (i + 1) (binaryString @ [fromCharCode (bytes ! i)])
      else binaryString)"
  by pat_completeness auto
termination
  by (relation "measure (\<lambda>(bytes, i, binaryString). length bytes - i)") auto

declare arrayBufferToBinaryString_loop.simps [simp del]

definition arrayBufferToBinaryString :: "byte list \<Rightarrow> jsstring" where
  "arrayBufferToBinaryString arrayBuffer = arrayBufferToBinaryString_loop arrayBuffer 0 []"

section \<open>Decoding a chunk\<close>

text \<open>
  \<^verbatim>\<open>new TextDecoder()\<close> is the browser's UTF-8 decoder, and \<^verbatim>\<open>decoder.decode(value)\<close> is
  called without \<^verbatim>\<open>{stream: true}\<close>: every chunk is decoded on its own, from the initial
  state, and flushed at its end. The decoder below is the one of the WHATWG Encoding
  Standard: its state is the code point under construction, the bytes seen and needed, and
  the bounds for the next byte.
\<close>

record utf8_state =
  code_point :: "32 word"
  bytes_seen :: nat
  bytes_needed :: nat
  lower_boundary :: byte
  upper_boundary :: byte

definition utf8_initial :: utf8_state where
  "utf8_initial =
     \<lparr>code_point = 0, bytes_seen = 0, bytes_needed = 0, lower_boundary = 0x80, upper_boundary = 0xBF\<rparr>"

text \<open>A byte read while no sequence is open: the code points emitted and the next state.\<close>

definition utf8_lead :: "byte \<Rightarrow> 32 word list \<times> utf8_state" where
  "utf8_lead b =
     (if b \<le> 0x7F then ([ucast b], utf8_initial)
      else if 0xC2 \<le> b \<and> b \<le> 0xDF
        then ([], utf8_initial\<lparr>bytes_needed := 1, code_point := ucast (b AND 0x1F)\<rparr>)
      else if 0xE0 \<le> b \<and> b \<le> 0xEF
        then ([], utf8_initial\<lparr>lower_boundary := (if b = 0xE0 then 0xA0 else 0x80),
                               upper_boundary := (if b = 0xED then 0x9F else 0xBF),
                               bytes_needed := 2, code_point := ucast (b AND 0x0F)\<rparr>)
      else if 0xF0 \<le> b \<and> b \<le> 0xF4
        then ([], utf8_initial\<lparr>lower_boundary := (if b = 0xF0 then 0x90 else 0x80),
                               upper_boundary := (if b = 0xF4 then 0x8F else 0xBF),
                               bytes_needed := 3, code_point := ucast (b AND 0x07)\<rparr>)
      else ([0xFFFD], utf8_initial))"

text \<open>
  A byte read inside a sequence: out of bounds, the sequence is replaced by U+FFFD and the
  byte is read again from the initial state; in bounds, it adds six bits.
\<close>

definition utf8_handler :: "utf8_state \<Rightarrow> byte \<Rightarrow> 32 word list \<times> utf8_state" where
  "utf8_handler st b =
     (if bytes_needed st = 0 then utf8_lead b
      else if \<not> (lower_boundary st \<le> b \<and> b \<le> upper_boundary st)
        then (case utf8_lead b of (out, st') \<Rightarrow> (0xFFFD # out, st'))
      else
        (let st1 = st\<lparr>lower_boundary := 0x80, upper_boundary := 0xBF,
                      code_point := push_bit 6 (code_point st) OR ucast (b AND 0x3F),
                      bytes_seen := bytes_seen st + 1\<rparr>
         in if bytes_seen st1 \<noteq> bytes_needed st1 then ([], st1)
            else ([code_point st1], utf8_initial)))"

text \<open>The end of the chunk with a sequence still open gives one more U+FFFD.\<close>

fun utf8_run :: "utf8_state \<Rightarrow> byte list \<Rightarrow> 32 word list" where
  "utf8_run st [] = (if bytes_needed st \<noteq> 0 then [0xFFFD] else [])"
| "utf8_run st (b # bs) = (case utf8_handler st b of (out, st') \<Rightarrow> out @ utf8_run st' bs)"

text \<open>A code point as UTF-16 code units: itself, or a surrogate pair.\<close>

definition utf16_units :: "32 word \<Rightarrow> jsstring" where
  "utf16_units cp =
     (if cp < 0x10000 then [ucast cp]
      else (let v = cp - 0x10000
            in [0xD800 + ucast (drop_bit 10 v), 0xDC00 + ucast (v AND 0x3FF)]))"

text \<open>\<^verbatim>\<open>decoder.decode(value)\<close>: a byte order mark at the start of the chunk is dropped.\<close>

definition TextDecoder_decode :: "byte list \<Rightarrow> jsstring" where
  "TextDecoder_decode bytes =
     (let cps = utf8_run utf8_initial bytes;
          cps' = (case cps of [] \<Rightarrow> [] | c # rest \<Rightarrow> if c = 0xFEFF then rest else cps)
      in concat (map utf16_units cps'))"

section \<open>The page: module variables, the controls and the log\<close>

text \<open>
  A child of the log element is a \<^verbatim>\<open>div\<close> whose text was set through \<^verbatim>\<open>textContent\<close>
  (\<^verbatim>\<open>logLine\<close>) or whose markup was set through \<^verbatim>\<open>innerHTML\<close> (\<^verbatim>\<open>logError\<close>).
\<close>

datatype entry = TextDiv jsstring | HtmlDiv jsstring

text \<open>
  \<^verbatim>\<open>progressLine\<close> refers to a \<^verbatim>\<open>div\<close> that is a child of the log, at some index, or that
  was a child before the log was emptied.
\<close>

datatype elem_ref = Attached nat | Detached

text \<open>The options of \<^verbatim>\<open>writeFlash\<close>; the two callbacks among them are not data.\<close>

record file_entry =
  data :: jsstring
  address :: int

record flashOptions =
  fileArray :: "file_entry list"
  flashSize :: jsstring
  eraseAll :: bool
  compress :: bool

text \<open>
  The calls the page makes on the serial port, the transport, the flasher client and the
  network, recorded in the order they are made.
\<close>

datatype call =
    RequestPort
  | NewTransport nat
  | Confirm
  | NewESPLoader int
  | LoaderMain jsstring
  | EraseFlash
  | Fetch jsstring
  | WriteFlash flashOptions
  | TransportDisconnect
  | Sleep int
  | PortOpen int
  | GetReader
  | ReaderCancel
  | ReleaseLock
  | PortClose

record session =
  device :: "nat option"
  transport :: "nat option"
  esploader :: "int option"
  port :: "nat option"
  reader :: "unit option"
  isMonitoring :: bool
  buffer :: jsstring
  progressLine :: "elem_ref option"
  log :: "entry list"
  butConnect_textContent :: jsstring
  butProgram_disabled :: bool
  butTerminal_disabled :: bool
  butTerminal_textContent :: jsstring
  butTerminal_backgroundColor :: jsstring
  firmwareSelect_value :: jsstring
  calls :: "call list"

definition FLASH_BAUD_RATE :: int where
  "FLASH_BAUD_RATE = 921600"

definition TERM_BAUD_RATE :: int where
  "TERM_BAUD_RATE = 115200"

definition FLASH_OFFSET :: int where
  "FLASH_OFFSET = 0x0"

text \<open>
  The module variables as lines 13 to 20 initialise them, the firmware selector on its
  only option, and the log after the \<^verbatim>\<open>DOMContentLoaded\<close> handler. The attributes of the
  three buttons come from the page's markup, which is not among the sources; they are
  taken as \<^verbatim>\<open>toggleUI(false)\<close> and \<^verbatim>\<open>stopMonitoring\<close> set them.
\<close>

definition initial_session :: session where
  "initial_session =
     \<lparr>device = None, transport = None, esploader = None, port = None, reader = None,
      isMonitoring = False, buffer = [], progressLine = None,
      log = [TextDiv (js ''Ideaboard Flasher & Terminal loaded.'')],
      butConnect_textContent = js ''Connect'', butProgram_disabled = True,
      butTerminal_disabled = True, butTerminal_textContent = js ''Terminal'',
      butTerminal_backgroundColor = [],
      firmwareSelect_value = js ''firmware/ideaboardfirmware03202025.bin'',
      calls = []\<rparr>"

text \<open>\<^verbatim>\<open>log.innerHTML = ""\<close>: the children go, and with them the progress line if it was one.\<close>

definition log_clear :: "session \<Rightarrow> session" where
  "log_clear s = s\<lparr>log := [], progressLine := map_option (\<lambda>_. Detached) (progressLine s)\<rparr>"

definition logLine :: "jsstring \<Rightarrow> session \<Rightarrow> session" where
  "logLine text s =
     (if startsWith text (js ''Programming: '') \<or> startsWith text (js ''Writing at'')
      then
        (let s1 = (if progressLine s = None
                   then s\<lparr>progressLine := Some (Attached (length (log s))),
                          log := log s @ [TextDiv []]\<rparr>
                   else s)
         in case progressLine s1 of
              Some (Attached i) \<Rightarrow> s1\<lparr>log := (log s1)[i := TextDiv text]\<rparr>
            | _ \<Rightarrow> s1)
      else s\<lparr>log := log s @ [TextDiv text]\<rparr>)"

definition logError :: "jsstring \<Rightarrow> session \<Rightarrow> session" where
  \<open>logError text s =
     s\<lparr>log := log s @ [HtmlDiv (js ''<span style="color: red;">Error: '' @ text @ js ''</span>'')]\<rparr>\<close>

definition toggleUI :: "bool \<Rightarrow> session \<Rightarrow> session" where
  "toggleUI connected s =
     s\<lparr>butConnect_textContent := (if connected then js ''Disconnect'' else js ''Connect''),
       butProgram_disabled := \<not> connected,
       butTerminal_disabled := \<not> connected\<rparr>"

definition called :: "call \<Rightarrow> session \<Rightarrow> session" where
  "called c s = s\<lparr>calls := calls s @ [c]\<rparr>"

section \<open>The environment of a handler\<close>

text \<open>
  What the browser, the user, the device and the flasher client answer during one run of
  a handler. An awaited call resolves, or rejects with an error that has a message.
\<close>

datatype outcome = Resolves | Rejects jsstring

text \<open>
  \<^verbatim>\<open>fetch\<close> rejects, or resolves to a response with its \<^verbatim>\<open>ok\<close> flag, whose
  \<^verbatim>\<open>arrayBuffer()\<close> rejects or gives the bytes.
\<close>

datatype fetch_outcome = FetchRejects jsstring | Response bool "jsstring + byte list"

text \<open>\<^verbatim>\<open>reader.read()\<close>: a chunk, the end of the stream, or a rejection.\<close>

datatype read_result = Chunk "byte list" | Done | ReadRejects jsstring

text \<open>The flasher client writes to the page through the \<^verbatim>\<open>terminal\<close> object it is given.\<close>

datatype terminal_call = Clean | WriteLine jsstring | Write jsstring

record env =
  requestPort_result :: "jsstring + nat"
  confirm_result :: bool
  main_result :: outcome
  main_terminal :: "terminal_call list"
  eraseFlash_result :: outcome
  eraseFlash_terminal :: "terminal_call list"
  erase_elapsed :: int
  fetch_result :: fetch_outcome
  writeFlash_result :: outcome
  writeFlash_terminal :: "terminal_call list"
  program_elapsed :: int
  disconnect_result :: outcome
  port_readable :: bool
  close_result :: outcome
  open_result :: outcome
  reads :: "read_result list"
  cancel_result :: outcome

text \<open>
  How a handler ends: it returns, it throws, or it stays suspended in an \<^verbatim>\<open>await\<close> that
  the environment has not answered.
\<close>

datatype completion = Returned | Threw jsstring | Suspended

text \<open>Sequencing: the next statement runs when the one before has completed normally.\<close>

definition and_then ::
  "completion \<times> session \<Rightarrow> (session \<Rightarrow> completion \<times> session) \<Rightarrow> completion \<times> session" where
  "and_then r f = (case r of (Returned, s) \<Rightarrow> f s | _ \<Rightarrow> r)"

definition awaited :: "call \<Rightarrow> outcome \<Rightarrow> session \<Rightarrow> completion \<times> session" where
  "awaited c r s = (case r of Resolves \<Rightarrow> (Returned, called c s) | Rejects msg \<Rightarrow> (Threw msg, called c s))"

section \<open>The terminal reader\<close>

text \<open>
  The inner \<^verbatim>\<open>while\<close> loop of \<^verbatim>\<open>clickTerminal\<close> (lines 211 to 217): as long as the buffer
  holds a line feed, the text before it is cleaned, logged unless it is empty, and removed
  from the buffer together with the line feed.
\<close>

function clickTerminal_lines :: "session \<Rightarrow> session" where
  "clickTerminal_lines s =
     (let newlineIndex = indexOf (buffer s) 0x0A
      in if newlineIndex \<noteq> -1
         then
           (let line = substring (buffer s) 0 newlineIndex;
                cleanedLine = cleanSerialOutput line;
                s1 = (if cleanedLine \<noteq> [] then logLine cleanedLine s else s)
            in clickTerminal_lines (s1\<lparr>buffer := substring_from (buffer s1) (newlineIndex + 1)\<rparr>))
         else s)"
  by pat_completeness auto
termination
proof (relation "measure (\<lambda>s. length (buffer s))")
  show "wf (measure (\<lambda>s. length (buffer s)))"
    by simp
next
  fix s :: session and newlineIndex line cleanedLine s1
  assume a: "newlineIndex = indexOf (buffer s) 0x0A" "newlineIndex \<noteq> -1"
    and b: "s1 = (if cleanedLine \<noteq> [] then logLine cleanedLine s else s)"
  have bounds: "indexOf xs c \<noteq> -1 \<Longrightarrow> 0 \<le> indexOf xs c \<and> indexOf xs c < int (length xs)" for xs c
    by (induction xs) (auto simp: Let_def split: if_splits)
  have keep: "buffer (logLine t s) = buffer s" for t
    by (simp add: logLine_def Let_def split: option.splits elem_ref.splits)
  from b keep have "buffer s1 = buffer s"
    by simp
  with a bounds [of "buffer s" "0x0A"]
  show "(s1\<lparr>buffer := substring_from (buffer s1) (newlineIndex + 1)\<rparr>, s) \<in> measure (\<lambda>s. length (buffer s))"
    by (auto simp: substring_from_def)
qed

declare clickTerminal_lines.simps [simp del]


text \<open>
  The outer \<^verbatim>\<open>while (isMonitoring)\<close> loop (lines 196 to 225), run on the answers that
  \<^verbatim>\<open>reader.read()\<close> gets. A rejection whose message mentions the lost device is reported
  and leaves the loop; any other one is thrown again. With no answer left the loop stays
  suspended in its \<^verbatim>\<open>await\<close>.
\<close>

fun clickTerminal_loop :: "read_result list \<Rightarrow> session \<Rightarrow> completion \<times> session" where
  "clickTerminal_loop [] s = (if \<not> isMonitoring s then (Returned, s) else (Suspended, s))"
| "clickTerminal_loop (r # rs) s =
     (if \<not> isMonitoring s then (Returned, s)
      else case r of
        ReadRejects message \<Rightarrow>
          if includes_js message (js ''device has been lost'')
          then (Returned, logError (js ''Device lost, please reconnect and try again.'') s)
          else (Threw message, s)
      | Done \<Rightarrow>
          (let s1 = (if buffer s \<noteq> []
                     then (let cleanedBuffer = cleanSerialOutput (buffer s);
                               s' = (if cleanedBuffer \<noteq> [] then logLine cleanedBuffer s else s)
                           in s'\<lparr>buffer := []\<rparr>)
                     else s)
           in (Returned, logLine (js ''Serial stream ended.'') s1))
      | Chunk value \<Rightarrow>
          (let text = TextDecoder_decode value;
               s1 = s\<lparr>buffer := buffer s @ text\<rparr>
           in clickTerminal_loop rs (clickTerminal_lines s1)))"

definition stopMonitoring :: "env \<Rightarrow> session \<Rightarrow> completion \<times> session" where
  "stopMonitoring e s =
     and_then (Returned, s\<lparr>isMonitoring := False,
                            butTerminal_textContent := js ''Terminal'',
                            butTerminal_backgroundColor := []\<rparr>) (\<lambda>s.
     and_then (if reader s \<noteq> None
               then and_then (awaited ReaderCancel (cancel_result e) s) (\<lambda>s.
                      (Returned, (called ReleaseLock s)\<lparr>reader := None\<rparr>))
               else (Returned, s)) (\<lambda>s.
     and_then (if port s \<noteq> None \<and> port_readable e
               then awaited PortClose (close_result e) s
               else (Returned, s)) (\<lambda>s.
     (Returned, logLine (js ''Terminal stopped.'')
                  (toggleUI False (s\<lparr>port := None, device := None\<rparr>))))))"

text \<open>
  \<^verbatim>\<open>clickTerminal\<close>. The \<^verbatim>\<open>try\<close> block gives a completion; a thrown error is caught and
  logged, and the \<^verbatim>\<open>finally\<close> block stops the monitoring if it is still on. A handler
  suspended in \<^verbatim>\<open>reader.read()\<close> has reached neither.
\<close>

definition clickTerminal_try :: "env \<Rightarrow> session \<Rightarrow> completion \<times> session" where
  "clickTerminal_try e s =
     and_then (Returned, called (Sleep 2000)
                  (logLine (js ''Reset your device now, waiting 2 seconds...'') s)) (\<lambda>s.
     and_then (awaited (PortOpen TERM_BAUD_RATE) (open_result e) s) (\<lambda>s.
     (let s1 = logLine (js ''Terminal started at '' @ number_toString TERM_BAUD_RATE
                          @ js '' baud. Click Stop to end.'') s;
          s2 = s1\<lparr>isMonitoring := True,
                   butTerminal_textContent := js ''Stop'',
                   butTerminal_backgroundColor := js ''#e74c3c''\<rparr>;
          s3 = (log_clear s2)\<lparr>buffer := []\<rparr>;
          s4 = (called GetReader s3)\<lparr>reader := Some ()\<rparr>
      in clickTerminal_loop (reads e) s4)))"

definition clickTerminal_finally :: "env \<Rightarrow> session \<Rightarrow> completion \<times> session" where
  "clickTerminal_finally e s = (if isMonitoring s then stopMonitoring e s else (Returned, s))"

definition clickTerminal :: "env \<Rightarrow> session \<Rightarrow> completion \<times> session" where
  "clickTerminal e s =
     (if isMonitoring s then stopMonitoring e s
      else if port s = None
        then (Returned, logError (js ''Please connect to a serial port first.'') s)
      else
        (case clickTerminal_try e s of
           (Suspended, s') \<Rightarrow> (Suspended, s')
         | (Threw message, s') \<Rightarrow>
             clickTerminal_finally e (logError (js ''Terminal failed: '' @ message) s')
         | (Returned, s') \<Rightarrow> clickTerminal_finally e s'))"

section \<open>Connecting\<close>

definition clickConnect :: "env \<Rightarrow> session \<Rightarrow> completion \<times> session" where
  "clickConnect e s =
     (if transport s \<noteq> None \<or> port s \<noteq> None
      then
        (if isMonitoring s then stopMonitoring e s
         else
           and_then (if transport s \<noteq> None
                     then and_then (awaited TransportDisconnect (disconnect_result e) s) (\<lambda>s.
                            (Returned, s\<lparr>transport := None\<rparr>))
                     else (Returned, s)) (\<lambda>s.
           and_then (if port s \<noteq> None \<and> port_readable e
                     then awaited PortClose (close_result e) s
                     else (Returned, s)) (\<lambda>s.
           (Returned, logLine (js ''Disconnected from serial port.'')
                        (toggleUI False (s\<lparr>device := None, port := None\<rparr>))))))
      else
        (case requestPort_result e of
           Inr p \<Rightarrow>
             (Returned, logLine (js ''Connected to serial port.'')
                          (toggleUI True
                            ((called (NewTransport p) (called RequestPort s))
                               \<lparr>device := Some p, port := Some p, transport := Some p\<rparr>)))
         | Inl message \<Rightarrow>
             (Returned, toggleUI False
                          (logError (js ''Failed to connect: '' @ message) (called RequestPort s)))))"

section \<open>Programming\<close>

text \<open>The \<^verbatim>\<open>terminal\<close> object handed to the flasher client.\<close>

fun terminal_apply :: "terminal_call \<Rightarrow> session \<Rightarrow> session" where
  "terminal_apply Clean s = log_clear s"
| "terminal_apply (WriteLine d) s = logLine d s"
| "terminal_apply (Write d) s = logLine d s"

text \<open>A call of the flasher client: what it writes to the terminal, then how it ends.\<close>

definition client_call ::
  "call \<Rightarrow> terminal_call list \<Rightarrow> outcome \<Rightarrow> session \<Rightarrow> completion \<times> session" where
  "client_call c written r s = awaited c r (fold terminal_apply written s)"

text \<open>
  The \<^verbatim>\<open>try\<close> block of \<^verbatim>\<open>clickProgram\<close> (lines 118 to 153). The offset in the log line is
  \<^verbatim>\<open>FLASH_OFFSET.toString(16)\<close>, the text \<^verbatim>\<open>0\<close>.
\<close>

definition clickProgram_try :: "env \<Rightarrow> jsstring \<Rightarrow> session \<Rightarrow> completion \<times> session" where
  "clickProgram_try e selectedFirmware s =
     and_then (client_call (LoaderMain (js ''default_reset'')) (main_terminal e) (main_result e)
                 ((called (NewESPLoader FLASH_BAUD_RATE) s)\<lparr>esploader := Some FLASH_BAUD_RATE\<rparr>)) (\<lambda>s.
     and_then (client_call EraseFlash (eraseFlash_terminal e) (eraseFlash_result e)
                 (logLine (js ''Erasing flash...'') s)) (\<lambda>s.
     (let s1 = logLine (js ''Erase completed in '' @ number_toString (erase_elapsed e) @ js ''ms.'') s;
          s2 = called (Fetch selectedFirmware) (logLine (js ''Fetching firmware...'') s1)
      in case fetch_result e of
           FetchRejects message \<Rightarrow> (Threw message, s2)
         | Response ok body \<Rightarrow>
             if \<not> ok then (Threw (js ''Failed to fetch firmware''), s2)
             else (case body of
                Inl message \<Rightarrow> (Threw message, s2)
              | Inr arrayBuffer \<Rightarrow>
                  (let firmwareData = arrayBufferToBinaryString arrayBuffer;
                       flashOptions = \<lparr>fileArray = [\<lparr>data = firmwareData, address = FLASH_OFFSET\<rparr>],
                                       flashSize = js ''keep'',
                                       eraseAll = False,
                                       compress = True\<rparr>;
                       s3 = logLine (js ''Programming firmware at offset 0x0...'') s2
                   in and_then (client_call (WriteFlash flashOptions) (writeFlash_terminal e)
                                  (writeFlash_result e) s3) (\<lambda>s.
                      (Returned,
                       logLine (js ''Firmware installed successfully. Click Terminal and reset your device.'')
                         (logLine (js ''Programming completed in '' @ number_toString (program_elapsed e)
                                     @ js ''ms.'') s))))))))"

definition clickProgram_finally :: "env \<Rightarrow> session \<Rightarrow> completion \<times> session" where
  "clickProgram_finally e s =
     and_then (Returned, s\<lparr>butProgram_disabled := False\<rparr>) (\<lambda>s.
     and_then (if transport s \<noteq> None
               then and_then (awaited TransportDisconnect (disconnect_result e) s) (\<lambda>s.
                      (Returned, s\<lparr>transport := None\<rparr>))
               else (Returned, s)) (\<lambda>s.
     and_then (if port s \<noteq> None \<and> port_readable e
               then and_then (awaited PortClose (close_result e) s) (\<lambda>s.
                      (Returned, s\<lparr>port := None\<rparr>))
               else (Returned, s)) (\<lambda>s.
     (Returned, s\<lparr>esploader := None\<rparr>))))"

definition clickProgram :: "env \<Rightarrow> session \<Rightarrow> completion \<times> session" where
  "clickProgram e s =
     (if transport s = None
      then (Returned, logError (js ''Please connect to a serial port first.'') s)
      else
        (let selectedFirmware = firmwareSelect_value s
         in if selectedFirmware = []
            then (Returned, logError (js ''Please select a firmware file first.'') s)
            else if \<not> confirm_result e then (Returned, called Confirm s)
            else
              (let s1 = (called Confirm s)\<lparr>butProgram_disabled := True, progressLine := None\<rparr>
               in case clickProgram_try e selectedFirmware s1 of
                    (Threw message, s2) \<Rightarrow> clickProgram_finally e (logError message s2)
                  | (_, s2) \<Rightarrow> clickProgram_finally e s2)))"

section \<open>Vocabulary of the theorems\<close>

text \<open>ASCII text as the bytes a device sends.\<close>

definition bytes_of :: "string \<Rightarrow> byte list" where
  "bytes_of s = map of_char s"

text \<open>
  What both loops of the reader do with a candidate line: clean it and log it unless the
  cleaned text is empty (lines 201 to 202 and 214 to 215).
\<close>

definition emit :: "jsstring \<Rightarrow> session \<Rightarrow> session" where
  "emit line s = (if cleanSerialOutput line \<noteq> [] then logLine (cleanSerialOutput line) s else s)"

text \<open>
  An environment in which every call succeeds, the user confirms, the port is readable
  and the device sends nothing; the examples override single answers.
\<close>

definition quiet_env :: env where
  "quiet_env =
     \<lparr>requestPort_result = Inr 1, confirm_result = True,
      main_result = Resolves, main_terminal = [],
      eraseFlash_result = Resolves, eraseFlash_terminal = [], erase_elapsed = 0,
      fetch_result = Response True (Inr []),
      writeFlash_result = Resolves, writeFlash_terminal = [], program_elapsed = 0,
      disconnect_result = Resolves, port_readable = True, close_result = Resolves,
      open_result = Resolves, reads = [], cancel_result = Resolves\<rparr>"

text \<open>The page after a successful click on Connect.\<close>

definition connected_session :: session where
  "connected_session = snd (clickConnect quiet_env initial_session)"

text \<open>The session in which \<^verbatim>\<open>clickTerminal\<close> enters its read loop.\<close>

definition loop_entry :: "session \<Rightarrow> session" where
  "loop_entry s =
     (called GetReader
        ((log_clear
           ((logLine (js ''Terminal started at '' @ number_toString TERM_BAUD_RATE
                        @ js '' baud. Click Stop to end.'')
               (called (PortOpen TERM_BAUD_RATE)
                 (called (Sleep 2000)
                   (logLine (js ''Reset your device now, waiting 2 seconds...'') s))))
              \<lparr>isMonitoring := True,
               butTerminal_textContent := js ''Stop'',
               butTerminal_backgroundColor := js ''#e74c3c''\<rparr>))
           \<lparr>buffer := []\<rparr>))
        \<lparr>reader := Some ()\<rparr>"


text \<open>
  The connection of the page: the device, the port and the transport, and what
  \<^verbatim>\<open>toggleUI\<close> sets on the three buttons.
\<close>

definition connection ::
  "session \<Rightarrow> (nat option \<times> nat option \<times> nat option) \<times> (jsstring \<times> bool \<times> bool)" where
  "connection s =
     ((device s, port s, transport s),
      (butConnect_textContent s, butProgram_disabled s, butTerminal_disabled s))"

text \<open>The calls a handler has added to the record of a session.\<close>

definition new_calls :: "session \<Rightarrow> session \<Rightarrow> call list" where
  "new_calls s s' = drop (length (calls s)) (calls s')"

text \<open>The three steps of the programming sequence whose order is at stake.\<close>

fun flash_step :: "call \<Rightarrow> bool" where
  "flash_step EraseFlash = True"
| "flash_step (Fetch url) = True"
| "flash_step (WriteFlash opts) = True"
| "flash_step c = False"

text \<open>
  The steps that the answers of the environment let \<^verbatim>\<open>clickProgram\<close> reach, with the options
  the source gives to \<^verbatim>\<open>writeFlash\<close>; and the calls of its \<^verbatim>\<open>finally\<close> block.
\<close>

definition program_steps :: "env \<Rightarrow> jsstring \<Rightarrow> call list" where
  "program_steps e selectedFirmware =
     (case main_result e of
        Rejects m \<Rightarrow> []
      | Resolves \<Rightarrow>
          EraseFlash #
          (case eraseFlash_result e of
             Rejects m \<Rightarrow> []
           | Resolves \<Rightarrow>
               Fetch selectedFirmware #
               (case fetch_result e of
                  Response True (Inr arrayBuffer) \<Rightarrow>
                    [WriteFlash \<lparr>fileArray = [\<lparr>data = arrayBufferToBinaryString arrayBuffer, address = 0\<rparr>],
                                 flashSize = js ''keep'', eraseAll = False, compress = True\<rparr>]
                | _ \<Rightarrow> [])))"

definition cleanup_calls :: "env \<Rightarrow> session \<Rightarrow> call list" where
  "cleanup_calls e s =
     (if transport s \<noteq> None
      then TransportDisconnect #
             (if disconnect_result e = Resolves \<and> port s \<noteq> None \<and> port_readable e
              then [PortClose] else [])
      else if port s \<noteq> None \<and> port_readable e then [PortClose] else [])"

text \<open>
  Erasing fails; erasing fails and the transport cannot be disconnected either; and a
  firmware image of three bytes.
\<close>

definition erase_fails_env :: env where
  "erase_fails_env = quiet_env\<lparr>eraseFlash_result := Rejects (js ''Timeout'')\<rparr>"

definition unplugged_env :: env where
  "unplugged_env =
     quiet_env\<lparr>eraseFlash_result := Rejects (js ''Timeout''),
               disconnect_result := Rejects (js ''The device has been lost.'')\<rparr>"

definition image_env :: env where
  "image_env = quiet_env\<lparr>fetch_result := Response True (Inr [0xE9, 0x00, 0xFF])\<rparr>"

text \<open>
  A line as a device writes it, in pieces: text, which is any run of code units without
  ESC, printable or not; a CSI sequence with digits and semicolons as parameters; a title
  sequence that ends in BEL, or in ESC and backslash; and an ESC that starts no sequence.
\<close>

datatype token =
    is_Text: Text jsstring
  | is_Csi: Csi jsstring jschar
  | is_OscBel: OscBel jsstring
  | is_OscSt: OscSt jsstring
  | is_Esc: Esc

fun render :: "token \<Rightarrow> jsstring" where
  "render (Text t) = t"
| "render (Csi params final) = 0x1B # 0x5B # params @ [final]"
| "render (OscBel title) = 0x1B # 0x5D # 0x30 # 0x3B # title @ [0x07]"
| "render (OscSt title) = 0x1B # 0x5D # 0x30 # 0x3B # title @ [0x1B, 0x5C]"
| "render Esc = [0x1B]"

definition flat :: "token list \<Rightarrow> jsstring" where
  "flat toks = concat (map render toks)"

fun text_of :: "token \<Rightarrow> jsstring" where
  "text_of (Text t) = t"
| "text_of tok = []"

text \<open>
  A title holds no line terminator, no BEL and no ESC; a title that ends in ESC and
  backslash holds no backslash either.
\<close>

fun wf_token :: "token \<Rightarrow> bool" where
  "wf_token (Text t) \<longleftrightarrow> (\<forall>c \<in> set t. c \<noteq> 0x1B)"
| "wf_token (Csi params final) \<longleftrightarrow> (\<forall>c \<in> set params. digit_or_semicolon c) \<and> ascii_letter final"
| "wf_token (OscBel title) \<longleftrightarrow> (\<forall>c \<in> set title. dot c \<and> c \<noteq> 0x07 \<and> c \<noteq> 0x1B)"
| "wf_token (OscSt title) \<longleftrightarrow> (\<forall>c \<in> set title. dot c \<and> c \<noteq> 0x07 \<and> c \<noteq> 0x1B \<and> c \<noteq> 0x5C)"
| "wf_token Esc \<longleftrightarrow> True"

text \<open>A BEL stands ahead in a string: before its end and before any line terminator.\<close>

fun bel_ahead :: "jsstring \<Rightarrow> bool" where
  "bel_ahead [] \<longleftrightarrow> False"
| "bel_ahead (c # cs) \<longleftrightarrow> c = 0x07 \<or> (dot c \<and> bel_ahead cs)"

text \<open>
  After a title sequence that ends in ESC and backslash no BEL stands ahead in the rest of
  the line.
\<close>

fun st_ok :: "token list \<Rightarrow> bool" where
  "st_ok [] \<longleftrightarrow> True"
| "st_ok (tok # toks) \<longleftrightarrow> (is_OscSt tok \<longrightarrow> \<not> bel_ahead (flat toks)) \<and> st_ok toks"

text \<open>
  An ESC that starts no sequence is the last piece of the line, or stands before another
  such ESC, or before text that begins with neither of the two brackets.
\<close>

fun plain_start :: "token list \<Rightarrow> bool" where
  "plain_start [] \<longleftrightarrow> True"
| "plain_start (Esc # toks) \<longleftrightarrow> True"
| "plain_start (Text (c # t) # toks) \<longleftrightarrow> c \<noteq> 0x5B \<and> c \<noteq> 0x5D"
| "plain_start toks \<longleftrightarrow> False"

fun esc_ok :: "token list \<Rightarrow> bool" where
  "esc_ok [] \<longleftrightarrow> True"
| "esc_ok (tok # toks) \<longleftrightarrow> (is_Esc tok \<longrightarrow> plain_start toks) \<and> esc_ok toks"

definition wf_line :: "token list \<Rightarrow> bool" where
  "wf_line toks \<longleftrightarrow> (\<forall>tok \<in> set toks. wf_token tok) \<and> st_ok toks \<and> esc_ok toks"

section \<open>Theorems\<close>

text \<open>The definitions that evaluate the cleaner and the decoder on a given input.\<close>

lemmas clean_eval = cleanSerialOutput_def js_def re_csi_def re_osc_bel_def re_osc_backslash_def
  re_osc_either_def re_control_def re_crlf_def re_cr_def is_char_def digit_or_semicolon_def
  ascii_letter_def dot_def bel_or_backslash_def control_byte_def

lemmas decode_eval = TextDecoder_decode_def utf8_handler_def utf8_lead_def utf8_initial_def
  utf16_units_def Let_def bytes_of_def


subsection \<open>Global replacement\<close>

lemma rmatch_One_miss: "\<not> p c \<Longrightarrow> rmatch (One p # as) (c # cs) = None"
  by simp

lemma js_replace_skip:
  assumes "\<forall>c \<in> set xs. \<not> p c"
  shows "js_replace (One p # as) rep (xs @ s) = xs @ js_replace (One p # as) rep s"
  using assms by (induction xs) simp_all

lemma js_replace_Nil_One: "js_replace (One p # as) rep [] = []"
  by simp

lemma js_replace_id:
  assumes "\<forall>c \<in> set xs. \<not> p c"
  shows "js_replace (One p # as) rep xs = xs"
  using js_replace_skip [OF assms, of as rep "[]"] by simp

lemma js_replace_class: "js_replace [One p] [] s = filter (\<lambda>c. \<not> p c) s"
  by (induction s) simp_all

subsection \<open>The line cleaner\<close>

lemma control_byte_esc: "control_byte 0x1B"
  by (simp add: control_byte_def)

lemma control_byte_cr: "control_byte 0x0D"
  by (simp add: control_byte_def)

lemma no_control_no_esc:
  assumes "\<forall>c \<in> set s. \<not> control_byte c"
  shows "\<forall>c \<in> set s. \<not> is_char 0x1B c"
  using assms control_byte_esc by (auto simp: is_char_def)

lemma no_control_no_cr:
  assumes "\<forall>c \<in> set s. \<not> control_byte c"
  shows "\<forall>c \<in> set s. \<not> is_char 0x0D c"
  using assms control_byte_cr by (auto simp: is_char_def)

lemma line_endings_id:
  assumes "\<forall>c \<in> set s. \<not> control_byte c"
  shows "js_replace re_cr [] (js_replace re_crlf [0x0A] s) = s"
  using no_control_no_cr [OF assms]
  by (simp add: re_cr_def re_crlf_def js_replace_id)

text \<open>
  The control-byte class contains the carriage return, so that the two replacements that
  normalise line endings never find one: the cleaner is the four escape-sequence
  replacements followed by the removal of the control bytes.
\<close>

lemma cleanSerialOutput_filter:
  "cleanSerialOutput s =
     filter (\<lambda>c. \<not> control_byte c)
       (js_replace re_osc_either []
         (js_replace re_osc_backslash []
           (js_replace re_osc_bel []
             (js_replace re_csi [] s))))"
  unfolding cleanSerialOutput_def
  by (subst js_replace_class [of control_byte, folded re_control_def])+
     (rule line_endings_id, simp)

lemma cleanSerialOutput_no_control: "\<forall>c \<in> set (cleanSerialOutput s). \<not> control_byte c"
  by (simp add: cleanSerialOutput_filter)

lemma cleanSerialOutput_fixed:
  assumes "\<forall>c \<in> set s. \<not> control_byte c"
  shows "cleanSerialOutput s = s"
proof -
  have esc: "\<forall>c \<in> set s. \<not> is_char 0x1B c"
    by (rule no_control_no_esc [OF assms])
  have "filter (\<lambda>c. \<not> control_byte c) s = s"
    using assms by (simp add: filter_id_conv)
  with esc show ?thesis
    by (simp add: cleanSerialOutput_filter re_csi_def re_osc_bel_def re_osc_backslash_def
        re_osc_either_def js_replace_id)
qed

text \<open>
  C5: the line cleaner is idempotent: cleaning the result of cleaning a string gives the
  same string as cleaning it once.
\<close>

theorem cleanSerialOutput_idempotent:
  "cleanSerialOutput (cleanSerialOutput s) = cleanSerialOutput s"
  by (rule cleanSerialOutput_fixed) (rule cleanSerialOutput_no_control)


subsection \<open>Words\<close>

lemma unat_fromCharCode: "unat (fromCharCode b) = unat b"
proof -
  have "unat b < 2 ^ 8"
    using unsigned_less [of b, where 'a = nat] by simp
  then have "unat b < 2 ^ 16"
    by simp
  then show ?thesis
    by (simp add: fromCharCode_def unsigned_ucast_eq take_bit_nat_eq_self)
qed

lemma byte_bound: "unat b < 256" for b :: byte
  using unsigned_less [of b, where 'a = nat] by simp

lemma lf_only:
  fixes c :: jschar
  assumes "\<not> control_byte c" "c \<le> 0x1F"
  shows "c = 0x0A"
proof -
  have "unat c = 10"
    using assms unfolding control_byte_def word_le_nat_alt by simp
  then have "word_of_nat (unat c) = (word_of_nat 10 :: jschar)"
    by simp
  then show ?thesis
    by simp
qed

text \<open>
  C9: for every input string, the output of the line cleaner contains no carriage return
  and no character in the ranges 0x00 to 0x09, 0x0B to 0x1F or 0x7F to 0x9F; the only
  control character that can appear in it is the line feed 0x0A.
\<close>

theorem cleanSerialOutput_output_bytes:
  "\<forall>c \<in> set (cleanSerialOutput s).
     c \<noteq> 0x0D \<and> \<not> c \<le> 0x09 \<and> \<not> (0x0B \<le> c \<and> c \<le> 0x1F) \<and> \<not> (0x7F \<le> c \<and> c \<le> 0x9F) \<and>
     (c \<le> 0x1F \<or> (0x7F \<le> c \<and> c \<le> 0x9F) \<longrightarrow> c = 0x0A)"
proof
  fix c assume "c \<in> set (cleanSerialOutput s)"
  then have n: "\<not> control_byte c"
    using cleanSerialOutput_no_control by blast
  have cr: "c \<noteq> 0x0D"
    using n control_byte_cr by auto
  have lf: "c \<le> 0x1F \<longrightarrow> c = 0x0A"
    using n lf_only by blast
  from n have r: "\<not> c \<le> 0x09 \<and> \<not> (0x0B \<le> c \<and> c \<le> 0x1F) \<and> \<not> (0x7F \<le> c \<and> c \<le> 0x9F)"
    unfolding control_byte_def by blast
  from cr lf r show "c \<noteq> 0x0D \<and> \<not> c \<le> 0x09 \<and> \<not> (0x0B \<le> c \<and> c \<le> 0x1F) \<and> \<not> (0x7F \<le> c \<and> c \<le> 0x9F) \<and>
     (c \<le> 0x1F \<or> (0x7F \<le> c \<and> c \<le> 0x9F) \<longrightarrow> c = 0x0A)"
    by blast
qed

theorem cleanSerialOutput_output_bytes_witness:
  "(0x0A :: jschar) \<in> set (cleanSerialOutput ([0x0D, 0x1B] @ js ''[0mok'' @ [0x07, 0x0A])) \<and>
   (0x0A :: jschar) \<noteq> 0x0D \<and> \<not> (0x0A :: jschar) \<le> 0x09 \<and>
   \<not> (0x0B \<le> (0x0A :: jschar) \<and> (0x0A :: jschar) \<le> 0x1F) \<and>
   \<not> (0x7F \<le> (0x0A :: jschar) \<and> (0x0A :: jschar) \<le> 0x9F)"
  using cleanSerialOutput_output_bytes [of "[0x0D, 0x1B] @ js ''[0mok'' @ [0x07, 0x0A]"]
  by (simp add: clean_eval)

lemma arrayBufferToBinaryString_loop_eq:
  "arrayBufferToBinaryString_loop bytes i acc = acc @ map fromCharCode (drop i bytes)"
proof (induction bytes i acc rule: arrayBufferToBinaryString_loop.induct)
  case (1 bytes i binaryString)
  show ?case
  proof (cases "i < length bytes")
    case True
    then have "drop i bytes = bytes ! i # drop (Suc i) bytes"
      by (simp add: Cons_nth_drop_Suc)
    with True 1 show ?thesis
      by (subst arrayBufferToBinaryString_loop.simps) simp
  next
    case False
    then show ?thesis
      by (subst arrayBufferToBinaryString_loop.simps) simp
  qed
qed

lemma arrayBufferToBinaryString_map:
  "arrayBufferToBinaryString bytes = map fromCharCode bytes"
  by (simp add: arrayBufferToBinaryString_def arrayBufferToBinaryString_loop_eq)

text \<open>
  C10: for every byte buffer, the binary string has as many characters as the buffer has
  bytes, and the character code at each index is the byte at that index, below 256.
\<close>

theorem arrayBufferToBinaryString_codes:
  "length (arrayBufferToBinaryString bytes) = length bytes \<and>
   (\<forall>i < length bytes.
      unat (arrayBufferToBinaryString bytes ! i) = unat (bytes ! i) \<and>
      unat (arrayBufferToBinaryString bytes ! i) < 256)"
  by (simp add: arrayBufferToBinaryString_map unat_fromCharCode byte_bound)

theorem arrayBufferToBinaryString_codes_witness:
  "length (arrayBufferToBinaryString [0x00, 0x7F, 0xE9, 0xFF]) = 4 \<and>
   unat (arrayBufferToBinaryString [0x00, 0x7F, 0xE9, 0xFF] ! 2) = 233 \<and>
   unat (arrayBufferToBinaryString [0x00, 0x7F, 0xE9, 0xFF] ! 2) < 256"
  using arrayBufferToBinaryString_codes [of "[0x00, 0x7F, 0xE9, 0xFF]"]
  by simp

subsection \<open>The terminal reader\<close>

lemma indexOf_absent: "c \<notin> set xs \<Longrightarrow> indexOf xs c = -1"
  by (induction xs) auto

lemma indexOf_nonneg: "c \<in> set xs \<Longrightarrow> 0 \<le> indexOf xs c"
  by (induction xs) (auto simp: Let_def)

lemma indexOf_present: "c \<in> set xs \<Longrightarrow> indexOf xs c \<noteq> -1"
  using indexOf_nonneg [of c xs] by auto

lemma indexOf_first: "c \<notin> set xs \<Longrightarrow> indexOf (xs @ c # ys) c = int (length xs)"
  by (induction xs) (auto simp: Let_def)

lemma substring_line: "substring (xs @ c # ys) 0 (int (length xs)) = xs"
  by (simp add: substring_def)

lemma substring_from_rest: "substring_from (xs @ c # ys) (int (length xs) + 1) = ys"
  by (simp add: substring_from_def nat_add_distrib)

lemma logLine_buffer [simp]: "buffer (logLine t s) = buffer s"
  by (simp add: logLine_def Let_def split: option.splits elem_ref.splits)

lemma logLine_buffer_update: "logLine t (s\<lparr>buffer := b\<rparr>) = (logLine t s)\<lparr>buffer := b\<rparr>"
  by (simp add: logLine_def Let_def split: option.splits elem_ref.splits)

lemma emit_buffer [simp]: "buffer (emit l s) = buffer s"
  by (simp add: emit_def)

lemma emit_buffer_update: "emit l (s\<lparr>buffer := b\<rparr>) = (emit l s)\<lparr>buffer := b\<rparr>"
  by (simp add: emit_def logLine_buffer_update)

lemma clickTerminal_lines_none:
  "0x0A \<notin> set (buffer s) \<Longrightarrow> clickTerminal_lines s = s"
  by (subst clickTerminal_lines.simps) (simp add: indexOf_absent)

lemma clickTerminal_lines_step:
  assumes "0x0A \<notin> set l" and "buffer s = l @ 0x0A # r"
  shows "clickTerminal_lines s = clickTerminal_lines ((emit l s)\<lparr>buffer := r\<rparr>)"
  using assms
  by (subst clickTerminal_lines.simps)
     (simp add: indexOf_first substring_line substring_from_rest emit_def Let_def)

lemma first_line_feed:
  assumes "(c::jschar) \<in> set xs"
  obtains l r where "xs = l @ c # r" and "c \<notin> set l"
  using assms split_list_first by metis

lemma clickTerminal_lines_append:
  "clickTerminal_lines ((clickTerminal_lines s)\<lparr>buffer := buffer (clickTerminal_lines s) @ t\<rparr>)
     = clickTerminal_lines (s\<lparr>buffer := buffer s @ t\<rparr>)"
proof (induction "length (buffer s)" arbitrary: s rule: less_induct)
  case less
  show ?case
  proof (cases "0x0A \<in> set (buffer s)")
    case False
    then show ?thesis
      by (simp add: clickTerminal_lines_none)
  next
    case True
    then obtain l r where split: "buffer s = l @ 0x0A # r" and l: "0x0A \<notin> set l"
      by (rule first_line_feed)
    let ?s' = "(emit l s)\<lparr>buffer := r\<rparr>"
    have shorter: "length (buffer ?s') < length (buffer s)"
      using split by simp
    have a: "clickTerminal_lines s = clickTerminal_lines ?s'"
      using l split by (rule clickTerminal_lines_step)
    have "clickTerminal_lines (s\<lparr>buffer := buffer s @ t\<rparr>)
            = clickTerminal_lines ((emit l (s\<lparr>buffer := buffer s @ t\<rparr>))\<lparr>buffer := r @ t\<rparr>)"
      using l by (rule clickTerminal_lines_step) (simp add: split)
    also have "\<dots> = clickTerminal_lines (?s'\<lparr>buffer := buffer ?s' @ t\<rparr>)"
      by (simp add: emit_buffer_update)
    finally show ?thesis
      using less [OF shorter] a by simp
  qed
qed

lemma clickTerminal_lines_drained: "0x0A \<notin> set (buffer (clickTerminal_lines s))"
proof (induction "length (buffer s)" arbitrary: s rule: less_induct)
  case less
  show ?case
  proof (cases "0x0A \<in> set (buffer s)")
    case False
    then show ?thesis
      by (simp add: clickTerminal_lines_none)
  next
    case True
    then obtain l r where split: "buffer s = l @ 0x0A # r" and l: "0x0A \<notin> set l"
      by (rule first_line_feed)
    have "length (buffer ((emit l s)\<lparr>buffer := r\<rparr>)) < length (buffer s)"
      using split by simp
    from less [OF this] show ?thesis
      using clickTerminal_lines_step [OF l split] by simp
  qed
qed


lemma logLine_isMonitoring [simp]: "isMonitoring (logLine t s) = isMonitoring s"
  by (simp add: logLine_def Let_def split: option.splits elem_ref.splits)

lemma emit_isMonitoring [simp]: "isMonitoring (emit l s) = isMonitoring s"
  by (simp add: emit_def)

lemma clickTerminal_lines_isMonitoring [simp]:
  "isMonitoring (clickTerminal_lines s) = isMonitoring s"
proof (induction "length (buffer s)" arbitrary: s rule: less_induct)
  case less
  show ?case
  proof (cases "0x0A \<in> set (buffer s)")
    case False
    then show ?thesis
      by (simp add: clickTerminal_lines_none)
  next
    case True
    then obtain l r where split: "buffer s = l @ 0x0A # r" and l: "0x0A \<notin> set l"
      by (rule first_line_feed)
    have "length (buffer ((emit l s)\<lparr>buffer := r\<rparr>)) < length (buffer s)"
      using split by simp
    from less [OF this] show ?thesis
      using clickTerminal_lines_step [OF l split] by simp
  qed
qed

text \<open>Feeding chunks one by one is feeding their decoded texts at once.\<close>

lemma clickTerminal_loop_chunks:
  assumes "isMonitoring s" and "0x0A \<notin> set (buffer s)"
  shows "clickTerminal_loop (map Chunk cs @ rest) s
           = clickTerminal_loop rest
               (clickTerminal_lines (s\<lparr>buffer := buffer s @ concat (map TextDecoder_decode cs)\<rparr>))"
  using assms
proof (induction cs arbitrary: s)
  case Nil
  then show ?case
    by (simp add: clickTerminal_lines_none)
next
  case (Cons c cs)
  let ?s1 = "clickTerminal_lines (s\<lparr>buffer := buffer s @ TextDecoder_decode c\<rparr>)"
  have "clickTerminal_loop (map Chunk (c # cs) @ rest) s = clickTerminal_loop (map Chunk cs @ rest) ?s1"
    using Cons.prems by simp
  also have "\<dots> = clickTerminal_loop rest
      (clickTerminal_lines (?s1\<lparr>buffer := buffer ?s1 @ concat (map TextDecoder_decode cs)\<rparr>))"
    using Cons.prems by (intro Cons.IH) (simp_all add: clickTerminal_lines_drained)
  also have "clickTerminal_lines (?s1\<lparr>buffer := buffer ?s1 @ concat (map TextDecoder_decode cs)\<rparr>)
      = clickTerminal_lines (s\<lparr>buffer := buffer s @ concat (map TextDecoder_decode (c # cs))\<rparr>)"
    using clickTerminal_lines_append
      [of "s\<lparr>buffer := buffer s @ TextDecoder_decode c\<rparr>" "concat (map TextDecoder_decode cs)"]
    by simp
  finally show ?case .
qed

lemma clickTerminal_loop_independent:
  assumes "concat (map TextDecoder_decode cs1) = concat (map TextDecoder_decode cs2)"
    and "0x0A \<notin> set (buffer s)"
  shows "clickTerminal_loop (map Chunk cs1 @ rest) s = clickTerminal_loop (map Chunk cs2 @ rest) s"
proof (cases "isMonitoring s")
  case True
  with assms show ?thesis
    by (simp add: clickTerminal_loop_chunks)
next
  case False
  then have "clickTerminal_loop rs s = (Returned, s)" for rs
    by (cases rs) simp_all
  then show ?thesis
    by simp
qed


subsection \<open>Decoding ASCII chunks\<close>

lemma ascii_lead:
  assumes "b \<le> 0x7F"
  shows "utf8_handler utf8_initial b = ([ucast b], utf8_initial)"
  using assms by (simp add: utf8_handler_def utf8_lead_def utf8_initial_def)

lemma ascii_run:
  assumes "\<forall>b \<in> set bs. b \<le> 0x7F"
  shows "utf8_run utf8_initial bs = map ucast bs"
  using assms
proof (induction bs)
  case Nil
  show ?case
    by (simp add: utf8_initial_def)
next
  case (Cons b bs)
  then show ?case
    by (simp add: ascii_lead)
qed

lemma byte_code_point:
  fixes b :: byte
  shows "(ucast b :: 32 word) < 0x10000" and "(ucast b :: 32 word) \<noteq> 0xFEFF"
    and "(ucast (ucast b :: 32 word) :: jschar) = ucast b"
proof -
  have lt: "unat b < 256"
    using unsigned_less [of b, where 'a = nat] by simp
  then have u: "unat (ucast b :: 32 word) = unat b"
    by (simp add: unsigned_ucast_eq take_bit_nat_eq_self)
  show "(ucast b :: 32 word) < 0x10000"
    using u lt by (simp add: word_less_nat_alt)
  show "(ucast b :: 32 word) \<noteq> 0xFEFF"
  proof
    assume "(ucast b :: 32 word) = 0xFEFF"
    then have "unat (ucast b :: 32 word) = unat (0xFEFF :: 32 word)"
      by simp
    with u lt show False
      by simp
  qed
  show "(ucast (ucast b :: 32 word) :: jschar) = ucast b"
    by (rule ucast_up_ucast) (simp add: is_up)
qed

lemma ascii_decode:
  assumes "\<forall>b \<in> set bs. b \<le> 0x7F"
  shows "TextDecoder_decode bs = map ucast bs"
proof -
  have "concat (map utf16_units (map ucast cs)) = map ucast cs" for cs :: "byte list"
    by (induction cs) (simp_all add: utf16_units_def byte_code_point)
  moreover have "(case map ucast bs of [] \<Rightarrow> [] | c # rest \<Rightarrow> if c = (0xFEFF :: 32 word) then rest else map ucast bs)
      = map ucast bs"
    by (cases bs) (simp_all add: byte_code_point)
  ultimately show ?thesis
    by (simp add: TextDecoder_decode_def ascii_run [OF assms])
qed

lemma ascii_chunks_same_text:
  assumes "\<forall>b \<in> set (concat cs1). b \<le> 0x7F" and "concat cs1 = concat cs2"
  shows "concat (map TextDecoder_decode cs1) = concat (map TextDecoder_decode cs2)"
proof -
  have d: "concat (map TextDecoder_decode cs) = map ucast (concat cs)"
    if "\<forall>b \<in> set (concat cs). b \<le> 0x7F" for cs
    using that by (induction cs) (simp_all add: ascii_decode)
  have "concat (map TextDecoder_decode cs1) = map ucast (concat cs1)"
    using assms(1) by (rule d)
  moreover have "concat (map TextDecoder_decode cs2) = map ucast (concat cs2)"
    using assms by (intro d) simp
  ultimately show ?thesis
    using assms(2) by simp
qed


subsection \<open>The click on Terminal\<close>

lemma clickTerminal_try_loop:
  "clickTerminal_try e s =
     (case open_result e of
        Rejects message \<Rightarrow>
          (Threw message,
           called (PortOpen TERM_BAUD_RATE)
             (called (Sleep 2000) (logLine (js ''Reset your device now, waiting 2 seconds...'') s)))
      | Resolves \<Rightarrow>
          clickTerminal_loop (reads e)
            ((called GetReader
               ((log_clear
                  ((logLine (js ''Terminal started at '' @ number_toString TERM_BAUD_RATE
                               @ js '' baud. Click Stop to end.'')
                      (called (PortOpen TERM_BAUD_RATE)
                        (called (Sleep 2000)
                          (logLine (js ''Reset your device now, waiting 2 seconds...'') s))))
                     \<lparr>isMonitoring := True,
                      butTerminal_textContent := js ''Stop'',
                      butTerminal_backgroundColor := js ''#e74c3c''\<rparr>))
                  \<lparr>buffer := []\<rparr>))
               \<lparr>reader := Some ()\<rparr>))"
  by (simp add: clickTerminal_try_def and_then_def awaited_def Let_def split: outcome.splits)

lemma loop_entry_fields [simp]:
  "isMonitoring (loop_entry s)" "buffer (loop_entry s) = []" "log (loop_entry s) = []"
  by (simp_all add: loop_entry_def called_def log_clear_def)

lemma clickTerminal_try_Resolves:
  "open_result e = Resolves \<Longrightarrow> clickTerminal_try e s = clickTerminal_loop (reads e) (loop_entry s)"
  by (simp add: clickTerminal_try_loop loop_entry_def)

lemma clickTerminal_try_reads:
  "open_result e = Rejects m \<Longrightarrow> clickTerminal_try (e\<lparr>reads := rs\<rparr>) s = clickTerminal_try e s"
  by (simp add: clickTerminal_try_loop)

lemma stopMonitoring_reads: "stopMonitoring (e\<lparr>reads := rs\<rparr>) s = stopMonitoring e s"
  by (simp add: stopMonitoring_def cong: if_cong)

lemma clickTerminal_finally_reads:
  "clickTerminal_finally (e\<lparr>reads := rs\<rparr>) s = clickTerminal_finally e s"
  by (simp add: clickTerminal_finally_def stopMonitoring_reads)

text \<open>
  C4 (as amended): two chunk sequences whose chunks, each decoded on its own as the code
  decodes it, concatenate to the same text take \<^verbatim>\<open>clickTerminal\<close> to the same completion and
  the same session, display entries and buffer included, whatever the reader answers after
  them.
\<close>

theorem chunk_boundary_independence:
  assumes "concat (map TextDecoder_decode cs1) = concat (map TextDecoder_decode cs2)"
  shows "clickTerminal (e\<lparr>reads := map Chunk cs1 @ rest\<rparr>) s
           = clickTerminal (e\<lparr>reads := map Chunk cs2 @ rest\<rparr>) s"
proof -
  have "clickTerminal_try (e\<lparr>reads := map Chunk cs1 @ rest\<rparr>) s
          = clickTerminal_try (e\<lparr>reads := map Chunk cs2 @ rest\<rparr>) s"
  proof (cases "open_result e")
    case Resolves
    then show ?thesis
      using clickTerminal_loop_independent [OF assms, of "loop_entry s" rest]
      by (simp add: clickTerminal_try_Resolves)
  next
    case (Rejects m)
    then show ?thesis
      by (simp add: clickTerminal_try_reads)
  qed
  then show ?thesis
    by (simp add: clickTerminal_def clickTerminal_finally_reads stopMonitoring_reads
        split: prod.splits completion.splits)
qed


theorem chunk_boundary_independence_witness:
  "concat (map TextDecoder_decode [bytes_of ''ab'' @ [0x0A] @ bytes_of ''cd''])
     = concat (map TextDecoder_decode [bytes_of ''a'', bytes_of ''b'' @ [0x0A] @ bytes_of ''c'', bytes_of ''d'']) \<and>
   clickTerminal (quiet_env\<lparr>reads := map Chunk [bytes_of ''ab'' @ [0x0A] @ bytes_of ''cd''] @ [Done]\<rparr>)
       connected_session
     = clickTerminal (quiet_env\<lparr>reads := map Chunk [bytes_of ''a'', bytes_of ''b'' @ [0x0A] @ bytes_of ''c'',
                                                     bytes_of ''d''] @ [Done]\<rparr>)
         connected_session"
proof -
  have h: "concat (map TextDecoder_decode [bytes_of ''ab'' @ [0x0A] @ bytes_of ''cd''])
     = concat (map TextDecoder_decode [bytes_of ''a'', bytes_of ''b'' @ [0x0A] @ bytes_of ''c'', bytes_of ''d''])"
    by (rule ascii_chunks_same_text) (simp_all add: bytes_of_def)
  from chunk_boundary_independence [OF h] h show ?thesis
    by blast
qed

lemma emit_hello: "emit (0x1B # js ''[2Khello'') s = logLine (js ''hello'') s"
  by (simp add: emit_def clean_eval)

lemma emit_world: "emit (js ''world'' @ [0x07]) s = logLine (js ''world'') s"
  by (simp add: emit_def clean_eval)

lemma logLine_plain:
  "\<not> startsWith t (js ''Programming: '') \<Longrightarrow> \<not> startsWith t (js ''Writing at'') \<Longrightarrow>
   logLine t s = s\<lparr>log := log s @ [TextDiv t]\<rparr>"
  by (simp add: logLine_def)

lemma hello_world_lines:
  assumes "buffer s = 0x1B # js ''[2Khello'' @ [0x0A] @ js ''world'' @ [0x07, 0x0A]"
  shows "clickTerminal_lines s
           = s\<lparr>buffer := [], log := log s @ [TextDiv (js ''hello''), TextDiv (js ''world'')]\<rparr>"
proof -
  have 1: "clickTerminal_lines s
      = clickTerminal_lines ((emit (0x1B # js ''[2Khello'') s)\<lparr>buffer := js ''world'' @ [0x07, 0x0A]\<rparr>)"
    by (rule clickTerminal_lines_step) (simp_all add: assms js_def)
  have 2: "clickTerminal_lines ((emit (0x1B # js ''[2Khello'') s)\<lparr>buffer := js ''world'' @ [0x07, 0x0A]\<rparr>)
      = clickTerminal_lines
          ((emit (js ''world'' @ [0x07])
             ((emit (0x1B # js ''[2Khello'') s)\<lparr>buffer := js ''world'' @ [0x07, 0x0A]\<rparr>))\<lparr>buffer := []\<rparr>)"
    by (rule clickTerminal_lines_step) (simp_all add: js_def)
  have 3: "logLine (js ''hello'') s' = s'\<lparr>log := log s' @ [TextDiv (js ''hello'')]\<rparr>" for s'
    by (rule logLine_plain) (simp_all add: startsWith_def js_def)
  have 4: "logLine (js ''world'') s' = s'\<lparr>log := log s' @ [TextDiv (js ''world'')]\<rparr>" for s'
    by (rule logLine_plain) (simp_all add: startsWith_def js_def)
  have "clickTerminal_lines
          ((emit (js ''world'' @ [0x07])
             ((emit (0x1B # js ''[2Khello'') s)\<lparr>buffer := js ''world'' @ [0x07, 0x0A]\<rparr>))\<lparr>buffer := []\<rparr>)
      = s\<lparr>buffer := [], log := log s @ [TextDiv (js ''hello''), TextDiv (js ''world'')]\<rparr>"
    by (simp add: emit_hello emit_world 3 4 clickTerminal_lines_none)
  with 1 2 show ?thesis
    by simp
qed

text \<open>
  C8: for the chunks \<^verbatim>\<open>"\x1B[2Khello\n"\<close>, \<^verbatim>\<open>"wor"\<close> and \<^verbatim>\<open>"ld\x07\n"\<close> the terminal reader
  emits exactly the two display lines \<^verbatim>\<open>hello\<close> and \<^verbatim>\<open>world\<close>, and waits for the next chunk.
  The BEL of the second line passes the four patterns for escape sequences unchanged and
  is removed by the pattern for control bytes.
\<close>

theorem hello_world_example:
  assumes "\<not> isMonitoring s" and "port s \<noteq> None" and "open_result e = Resolves"
    and "reads e = [Chunk (0x1B # bytes_of ''[2Khello'' @ [0x0A]), Chunk (bytes_of ''wor''),
                    Chunk (bytes_of ''ld'' @ [0x07, 0x0A])]"
  shows "fst (clickTerminal e s) = Suspended \<and>
         log (snd (clickTerminal e s)) = [TextDiv (js ''hello''), TextDiv (js ''world'')] \<and>
         js_replace re_osc_either []
           (js_replace re_osc_backslash []
             (js_replace re_osc_bel [] (js_replace re_csi [] (js ''world'' @ [0x07]))))
           = js ''world'' @ [0x07] \<and>
         js_replace re_control [] (js ''world'' @ [0x07]) = js ''world''"
proof -
  have bel: "js_replace re_osc_either []
           (js_replace re_osc_backslash []
             (js_replace re_osc_bel [] (js_replace re_csi [] (js ''world'' @ [0x07]))))
           = js ''world'' @ [0x07]"
    "js_replace re_control [] (js ''world'' @ [0x07]) = js ''world''"
    by (simp_all add: clean_eval)
  let ?cs = "[0x1B # bytes_of ''[2Khello'' @ [0x0A], bytes_of ''wor'', bytes_of ''ld'' @ [0x07, 0x0A]]"
  have d: "concat (map TextDecoder_decode ?cs)
             = 0x1B # js ''[2Khello'' @ [0x0A] @ js ''world'' @ [0x07, 0x0A]"
    by (simp add: decode_eval js_def)
  have "clickTerminal_try e s = clickTerminal_loop (map Chunk ?cs @ []) (loop_entry s)"
    using assms(3,4) by (simp add: clickTerminal_try_Resolves)
  also have "\<dots> = clickTerminal_loop []
      (clickTerminal_lines ((loop_entry s)\<lparr>buffer := buffer (loop_entry s) @ concat (map TextDecoder_decode ?cs)\<rparr>))"
    by (rule clickTerminal_loop_chunks) simp_all
  also have "\<dots> = (Suspended,
      (loop_entry s)\<lparr>buffer := [], log := [TextDiv (js ''hello''), TextDiv (js ''world'')]\<rparr>)"
    unfolding d by (subst hello_world_lines) simp_all
  finally show ?thesis
    using assms(1,2) bel by (simp add: clickTerminal_def)
qed

theorem hello_world_example_witness:
  "fst (clickTerminal
         (quiet_env\<lparr>reads := [Chunk (0x1B # bytes_of ''[2Khello'' @ [0x0A]), Chunk (bytes_of ''wor''),
                                Chunk (bytes_of ''ld'' @ [0x07, 0x0A])]\<rparr>) connected_session) = Suspended \<and>
   log (snd (clickTerminal
         (quiet_env\<lparr>reads := [Chunk (0x1B # bytes_of ''[2Khello'' @ [0x0A]), Chunk (bytes_of ''wor''),
                                Chunk (bytes_of ''ld'' @ [0x07, 0x0A])]\<rparr>) connected_session))
     = [TextDiv (js ''hello''), TextDiv (js ''world'')]"
proof -
  have c: "\<not> isMonitoring connected_session \<and> port connected_session \<noteq> None"
    by (simp add: connected_session_def clickConnect_def quiet_env_def initial_session_def
        logLine_def toggleUI_def called_def startsWith_def js_def)
  have q: "open_result (quiet_env\<lparr>reads := rs\<rparr>) = Resolves" "reads (quiet_env\<lparr>reads := rs\<rparr>) = rs" for rs
    by (simp_all add: quiet_env_def)
  from c hello_world_example [OF _ _ q] show ?thesis
    by blast
qed


lemma clickTerminal_loop_stopped: "\<not> isMonitoring s \<Longrightarrow> clickTerminal_loop rs s = (Returned, s)"
  by (cases rs) simp_all

lemma logError_fields [simp]:
  "isMonitoring (logError t s) = isMonitoring s"
  \<open>log (logError t s) = log s @ [HtmlDiv (js ''<span style="color: red;">Error: '' @ t @ js ''</span>'')]\<close>
  by (simp_all add: logError_def)

lemma stopped_notice: "logLine (js ''Terminal stopped.'') s = s\<lparr>log := log s @ [TextDiv (js ''Terminal stopped.'')]\<rparr>"
  by (rule logLine_plain) (simp_all add: startsWith_def js_def)

lemma stopMonitoring_resolves:
  assumes "cancel_result e = Resolves" and "close_result e = Resolves"
  shows "fst (stopMonitoring e s) = Returned"
    and "\<not> isMonitoring (snd (stopMonitoring e s))"
    and "reader (snd (stopMonitoring e s)) = None"
    and "port (snd (stopMonitoring e s)) = None"
    and "device (snd (stopMonitoring e s)) = None"
    and "butConnect_textContent (snd (stopMonitoring e s)) = js ''Connect''"
    and "butProgram_disabled (snd (stopMonitoring e s))"
    and "butTerminal_disabled (snd (stopMonitoring e s))"
    and "butTerminal_textContent (snd (stopMonitoring e s)) = js ''Terminal''"
    and "log (snd (stopMonitoring e s)) = log s @ [TextDiv (js ''Terminal stopped.'')]"
  using assms
  by (cases "reader s";
      simp add: stopMonitoring_def and_then_def awaited_def called_def toggleUI_def stopped_notice)+

lemma connected_session_fields:
  "\<not> isMonitoring connected_session" "port connected_session = Some 1"
  "device connected_session = Some 1"
  "butConnect_textContent connected_session = js ''Disconnect''"
  "\<not> butProgram_disabled connected_session" "\<not> butTerminal_disabled connected_session"
  by (simp_all add: connected_session_def clickConnect_def quiet_env_def initial_session_def
      logLine_def toggleUI_def called_def startsWith_def js_def)


text \<open>A run whose chunks decode to one line and its line feed.\<close>

lemma clickTerminal_one_line:
  assumes "\<not> isMonitoring s" and "port s \<noteq> None" and "open_result e = Resolves"
    and "reads e = map Chunk cs"
    and "concat (map TextDecoder_decode cs) = l @ [0x0A]" and "0x0A \<notin> set l"
  shows "clickTerminal e s = (Suspended, (emit l (loop_entry s))\<lparr>buffer := []\<rparr>)"
proof -
  let ?s1 = "(loop_entry s)\<lparr>buffer := buffer (loop_entry s) @ concat (map TextDecoder_decode cs)\<rparr>"
  have "clickTerminal_try e s = clickTerminal_loop (map Chunk cs @ []) (loop_entry s)"
    using assms(3,4) by (simp add: clickTerminal_try_Resolves)
  also have "\<dots> = clickTerminal_loop [] (clickTerminal_lines ?s1)"
    by (rule clickTerminal_loop_chunks) simp_all
  also have "clickTerminal_lines ?s1 = clickTerminal_lines ((emit l ?s1)\<lparr>buffer := []\<rparr>)"
    using assms(6) by (rule clickTerminal_lines_step) (simp add: assms(5))
  also have "\<dots> = (emit l (loop_entry s))\<lparr>buffer := []\<rparr>"
    by (simp add: clickTerminal_lines_none emit_buffer_update)
  finally show ?thesis
    using assms(1,2) by (simp add: clickTerminal_def)
qed

lemma emit_plain:
  assumes "cleanSerialOutput l = t" and "t \<noteq> []"
    and "\<not> startsWith t (js ''Programming: '')" and "\<not> startsWith t (js ''Writing at'')"
  shows "log (emit l s) = log s @ [TextDiv t]"
  using assms by (simp add: emit_def logLine_plain)

text \<open>
  The three bytes of \<^verbatim>\<open>"\u00E9\n"\<close> in one chunk, and cut inside the two-byte character: the
  display line is the character in the first run and two replacement characters in the
  second.
\<close>

theorem chunk_boundary_counterexample:
  "concat [[0xC3, 0xA9, 0x0A]] = concat [[0xC3], [0xA9, 0x0A :: byte]] \<and>
   log (snd (clickTerminal (quiet_env\<lparr>reads := map Chunk [[0xC3, 0xA9, 0x0A]]\<rparr>) connected_session))
     = [TextDiv [0xE9]] \<and>
   log (snd (clickTerminal (quiet_env\<lparr>reads := map Chunk [[0xC3], [0xA9, 0x0A]]\<rparr>) connected_session))
     = [TextDiv [0xFFFD, 0xFFFD]]"
proof -
  have q: "open_result (quiet_env\<lparr>reads := rs\<rparr>) = Resolves" for rs
    by (simp add: quiet_env_def)
  have c: "\<not> isMonitoring connected_session" "port connected_session \<noteq> None"
    by (simp_all add: connected_session_fields)
  have 1: "clickTerminal (quiet_env\<lparr>reads := map Chunk [[0xC3, 0xA9, 0x0A]]\<rparr>) connected_session
      = (Suspended, (emit [0xE9] (loop_entry connected_session))\<lparr>buffer := []\<rparr>)"
    by (rule clickTerminal_one_line [OF c q, where cs = "[[0xC3, 0xA9, 0x0A]]"])
       (simp_all add: decode_eval)
  have 2: "clickTerminal (quiet_env\<lparr>reads := map Chunk [[0xC3], [0xA9, 0x0A]]\<rparr>) connected_session
      = (Suspended, (emit [0xFFFD, 0xFFFD] (loop_entry connected_session))\<lparr>buffer := []\<rparr>)"
    by (rule clickTerminal_one_line [OF c q, where cs = "[[0xC3], [0xA9, 0x0A]]"])
       (simp_all add: decode_eval)
  have 3: "log (emit [0xE9] (loop_entry connected_session)) = log (loop_entry connected_session) @ [TextDiv [0xE9]]"
    by (rule emit_plain) (simp_all add: clean_eval startsWith_def)
  have 4: "log (emit [0xFFFD, 0xFFFD] (loop_entry connected_session))
      = log (loop_entry connected_session) @ [TextDiv [0xFFFD, 0xFFFD]]"
    by (rule emit_plain) (simp_all add: clean_eval startsWith_def)
  show ?thesis
    unfolding 1 2 by (simp add: 3 4)
qed


subsection \<open>The click on Program\<close>

lemma logLine_frame [simp]:
  "transport (logLine t s) = transport s" "port (logLine t s) = port s"
  "calls (logLine t s) = calls s" "butProgram_disabled (logLine t s) = butProgram_disabled s"
  "esploader (logLine t s) = esploader s"
  by (simp_all add: logLine_def Let_def split: option.splits elem_ref.splits)

lemma logError_frame [simp]:
  "transport (logError t s) = transport s" "port (logError t s) = port s"
  "calls (logError t s) = calls s" "butProgram_disabled (logError t s) = butProgram_disabled s"
  by (simp_all add: logError_def)

lemma log_clear_frame [simp]:
  "transport (log_clear s) = transport s" "port (log_clear s) = port s"
  "calls (log_clear s) = calls s" "butProgram_disabled (log_clear s) = butProgram_disabled s"
  by (simp_all add: log_clear_def)

lemma terminal_apply_frame [simp]:
  "transport (terminal_apply w s) = transport s" "port (terminal_apply w s) = port s"
  "calls (terminal_apply w s) = calls s"
  "butProgram_disabled (terminal_apply w s) = butProgram_disabled s"
  by (cases w; simp)+

lemma terminal_fold_frame [simp]:
  "transport (fold terminal_apply ws s) = transport s"
  "port (fold terminal_apply ws s) = port s"
  "calls (fold terminal_apply ws s) = calls s"
  "butProgram_disabled (fold terminal_apply ws s) = butProgram_disabled s"
  by (induction ws arbitrary: s; simp)+

lemma called_frame [simp]:
  "transport (called c s) = transport s" "port (called c s) = port s"
  "calls (called c s) = calls s @ [c]" "butProgram_disabled (called c s) = butProgram_disabled s"
  by (simp_all add: called_def)

lemma client_call_frame [simp]:
  "transport (snd (client_call c ws r s)) = transport s"
  "port (snd (client_call c ws r s)) = port s"
  "calls (snd (client_call c ws r s)) = calls s @ [c]"
  "butProgram_disabled (snd (client_call c ws r s)) = butProgram_disabled s"
  "fst (client_call c ws r s) = (case r of Resolves \<Rightarrow> Returned | Rejects m \<Rightarrow> Threw m)"
  by (simp_all add: client_call_def awaited_def split: outcome.splits)

lemma and_then_cases:
  "and_then r f = (if fst r = Returned then f (snd r) else r)"
  by (cases r) (simp add: and_then_def split: completion.splits)

lemma clickProgram_try_frame:
  "transport (snd (clickProgram_try e fw s)) = transport s"
  "port (snd (clickProgram_try e fw s)) = port s"
  "butProgram_disabled (snd (clickProgram_try e fw s)) = butProgram_disabled s"
  "calls (snd (clickProgram_try e fw s))
     = calls s @ [NewESPLoader FLASH_BAUD_RATE, LoaderMain (js ''default_reset'')] @ program_steps e fw"
  "fst (clickProgram_try e fw s) \<noteq> Suspended"
  by (simp_all add: clickProgram_try_def and_then_cases program_steps_def Let_def FLASH_OFFSET_def
      split: outcome.splits fetch_outcome.splits sum.splits bool.splits)


lemma clickProgram_finally_calls:
  "calls (snd (clickProgram_finally e s)) = calls s @ cleanup_calls e s"
  by (simp add: clickProgram_finally_def and_then_def awaited_def cleanup_calls_def
      split: outcome.splits)

lemma clickProgram_finally_enabled:
  "\<not> butProgram_disabled (snd (clickProgram_finally e s))"
  by (simp add: clickProgram_finally_def and_then_def awaited_def split: outcome.splits)

lemma clickProgram_finally_released:
  assumes "disconnect_result e = Resolves"
  shows "transport (snd (clickProgram_finally e s)) = None"
    and "close_result e = Resolves \<Longrightarrow> fst (clickProgram_finally e s) = Returned"
    and "close_result e = Resolves \<Longrightarrow> esploader (snd (clickProgram_finally e s)) = None"
    and "close_result e = Resolves \<Longrightarrow> port s \<noteq> None \<Longrightarrow> port_readable e \<Longrightarrow>
         port (snd (clickProgram_finally e s)) = None"
  using assms
  by (cases "transport s";
      simp add: clickProgram_finally_def and_then_def awaited_def split: outcome.splits)+

text \<open>The programming sequence was started: connected, a firmware selected, confirmed.\<close>

lemma clickProgram_started:
  assumes "transport s \<noteq> None" and "firmwareSelect_value s \<noteq> []" and "confirm_result e"
  shows "\<exists>s2. clickProgram e s = clickProgram_finally e s2 \<and>
           transport s2 = transport s \<and> port s2 = port s \<and>
           calls s2 = calls s @ [Confirm, NewESPLoader FLASH_BAUD_RATE, LoaderMain (js ''default_reset'')]
                        @ program_steps e (firmwareSelect_value s)"
proof -
  let ?s1 = "(called Confirm s)\<lparr>butProgram_disabled := True, progressLine := None\<rparr>"
  let ?r = "clickProgram_try e (firmwareSelect_value s) ?s1"
  have f: "transport (snd ?r) = transport s" "port (snd ?r) = port s"
    "calls (snd ?r) = calls s @ [Confirm, NewESPLoader FLASH_BAUD_RATE, LoaderMain (js ''default_reset'')]
                        @ program_steps e (firmwareSelect_value s)"
    by (simp_all add: clickProgram_try_frame)
  obtain c s2 where r: "?r = (c, s2)"
    by (cases ?r)
  with f have g: "transport s2 = transport s" "port s2 = port s"
    "calls s2 = calls s @ [Confirm, NewESPLoader FLASH_BAUD_RATE, LoaderMain (js ''default_reset'')]
                        @ program_steps e (firmwareSelect_value s)"
    by simp_all
  have p: "clickProgram e s
      = (case c of Threw message \<Rightarrow> clickProgram_finally e (logError message s2)
         | _ \<Rightarrow> clickProgram_finally e s2)"
    using assms r by (auto simp: clickProgram_def Let_def)
  show ?thesis
  proof (cases c)
    case (Threw m)
    with p g show ?thesis
      by (intro exI [of _ "logError m s2"]) simp
  next
    case Returned
    with p g show ?thesis
      by (intro exI [of _ s2]) simp
  next
    case Suspended
    with p g show ?thesis
      by (intro exI [of _ s2]) simp
  qed
qed

lemma clickProgram_new_calls:
  assumes "transport s \<noteq> None" and "firmwareSelect_value s \<noteq> []" and "confirm_result e"
  shows "new_calls s (snd (clickProgram e s))
           = [Confirm, NewESPLoader FLASH_BAUD_RATE, LoaderMain (js ''default_reset'')]
               @ program_steps e (firmwareSelect_value s)
               @ TransportDisconnect #
                   (if disconnect_result e = Resolves \<and> port s \<noteq> None \<and> port_readable e
                    then [PortClose] else [])"
proof -
  obtain s2 where "clickProgram e s = clickProgram_finally e s2"
    and "transport s2 = transport s" and "port s2 = port s"
    and "calls s2 = calls s @ [Confirm, NewESPLoader FLASH_BAUD_RATE, LoaderMain (js ''default_reset'')]
                        @ program_steps e (firmwareSelect_value s)"
    using clickProgram_started [OF assms] by blast
  with assms(1) show ?thesis
    by (simp add: new_calls_def clickProgram_finally_calls cleanup_calls_def)
qed

lemma flash_steps_program_steps: "filter flash_step (program_steps e fw) = program_steps e fw"
  by (simp add: program_steps_def split: outcome.splits fetch_outcome.splits sum.splits bool.splits)

lemma clickProgram_flash_steps:
  assumes "transport s \<noteq> None" and "firmwareSelect_value s \<noteq> []" and "confirm_result e"
  shows "filter flash_step (new_calls s (snd (clickProgram e s)))
           = program_steps e (firmwareSelect_value s)"
  by (simp add: clickProgram_new_calls [OF assms] flash_steps_program_steps)

text \<open>
  The \<^verbatim>\<open>finally\<close> block of \<^verbatim>\<open>clickProgram\<close>, whatever the bootloader entry, the erase, the
  fetch and the write have answered: the program action is enabled again and the
  transport's \<^verbatim>\<open>disconnect\<close> is called. The statements after that call are reached when
  it resolves: then the transport is reset and the port is closed if it is still set and
  readable.
\<close>

lemma clickProgram_cleanup:
  assumes "transport s \<noteq> None" and "firmwareSelect_value s \<noteq> []" and "confirm_result e"
  shows "\<not> butProgram_disabled (snd (clickProgram e s)) \<and>
         TransportDisconnect \<in> set (new_calls s (snd (clickProgram e s))) \<and>
         (disconnect_result e = Resolves \<longrightarrow>
            transport (snd (clickProgram e s)) = None \<and>
            (port s \<noteq> None \<and> port_readable e \<longrightarrow>
               PortClose \<in> set (new_calls s (snd (clickProgram e s)))) \<and>
            (close_result e = Resolves \<longrightarrow>
               fst (clickProgram e s) = Returned \<and>
               (port s \<noteq> None \<and> port_readable e \<longrightarrow> port (snd (clickProgram e s)) = None)))"
proof -
  obtain s2 where s2: "clickProgram e s = clickProgram_finally e s2"
    "transport s2 = transport s" "port s2 = port s"
    using clickProgram_started [OF assms] by blast
  have "\<not> butProgram_disabled (snd (clickProgram e s))"
    by (simp add: s2 clickProgram_finally_enabled)
  moreover have "TransportDisconnect \<in> set (new_calls s (snd (clickProgram e s)))"
    by (simp add: clickProgram_new_calls [OF assms])
  moreover have "PortClose \<in> set (new_calls s (snd (clickProgram e s)))"
    if "disconnect_result e = Resolves" "port s \<noteq> None \<and> port_readable e"
    using that by (simp add: clickProgram_new_calls [OF assms])
  moreover have "transport (snd (clickProgram e s)) = None" if "disconnect_result e = Resolves"
    using that by (simp add: s2 clickProgram_finally_released)
  moreover have "fst (clickProgram e s) = Returned"
    if "disconnect_result e = Resolves" "close_result e = Resolves"
    using that by (simp add: s2 clickProgram_finally_released)
  moreover have "port (snd (clickProgram e s)) = None"
    if "disconnect_result e = Resolves" "close_result e = Resolves" "port s \<noteq> None \<and> port_readable e"
    using that clickProgram_finally_released(4) [of e s2] by (simp add: s2)
  ultimately show ?thesis
    by blast
qed

text \<open>
  C3: with a transport and a selected firmware, the erase, the fetch and the write are
  called in this order, each only after the one before; for every firmware image the write
  gets the image at address 0 with \<^verbatim>\<open>flashSize: "keep"\<close>, \<^verbatim>\<open>eraseAll: false\<close> and
  \<^verbatim>\<open>compress: true\<close>.
\<close>

theorem program_sequence_order:
  assumes "transport s \<noteq> None" and "firmwareSelect_value s \<noteq> []" and "confirm_result e"
  shows "(\<exists>opts. prefix (filter flash_step (new_calls s (snd (clickProgram e s))))
                    [EraseFlash, Fetch (firmwareSelect_value s), WriteFlash opts] \<and>
                 flashSize opts = js ''keep'' \<and> \<not> eraseAll opts \<and> compress opts \<and>
                 map address (fileArray opts) = [0]) \<and>
         (main_result e = Resolves \<and> eraseFlash_result e = Resolves \<and>
          fetch_result e = Response True (Inr arrayBuffer) \<longrightarrow>
            filter flash_step (new_calls s (snd (clickProgram e s)))
              = [EraseFlash, Fetch (firmwareSelect_value s),
                 WriteFlash \<lparr>fileArray = [\<lparr>data = arrayBufferToBinaryString arrayBuffer, address = 0\<rparr>],
                             flashSize = js ''keep'', eraseAll = False, compress = True\<rparr>])"
proof -
  let ?opts = "\<lambda>d. \<lparr>fileArray = [\<lparr>data = d, address = 0\<rparr>],
                      flashSize = js ''keep'', eraseAll = False, compress = True\<rparr>"
  have "\<exists>d. prefix (program_steps e fw) [EraseFlash, Fetch fw, WriteFlash (?opts d)]" for fw
    by (auto simp: program_steps_def split: outcome.splits fetch_outcome.splits sum.splits bool.splits)
  then obtain d where "prefix (program_steps e (firmwareSelect_value s))
      [EraseFlash, Fetch (firmwareSelect_value s), WriteFlash (?opts d)]"
    by blast
  then have "prefix (filter flash_step (new_calls s (snd (clickProgram e s))))
                    [EraseFlash, Fetch (firmwareSelect_value s), WriteFlash (?opts d)] \<and>
                 flashSize (?opts d) = js ''keep'' \<and> \<not> eraseAll (?opts d) \<and> compress (?opts d) \<and>
                 map address (fileArray (?opts d)) = [0]"
    by (simp add: clickProgram_flash_steps [OF assms])
  then have "\<exists>opts. prefix (filter flash_step (new_calls s (snd (clickProgram e s))))
                    [EraseFlash, Fetch (firmwareSelect_value s), WriteFlash opts] \<and>
                 flashSize opts = js ''keep'' \<and> \<not> eraseAll opts \<and> compress opts \<and>
                 map address (fileArray opts) = [0]"
    by (rule exI)
  moreover have "filter flash_step (new_calls s (snd (clickProgram e s)))
              = [EraseFlash, Fetch (firmwareSelect_value s), WriteFlash (?opts (arrayBufferToBinaryString arrayBuffer))]"
    if "main_result e = Resolves \<and> eraseFlash_result e = Resolves \<and>
          fetch_result e = Response True (Inr arrayBuffer)"
    using that by (simp add: clickProgram_flash_steps [OF assms] program_steps_def)
  ultimately show ?thesis
    by blast
qed


lemma connected_session_program:
  "transport connected_session \<noteq> None"
  "firmwareSelect_value connected_session = js ''firmware/ideaboardfirmware03202025.bin''"
  "firmwareSelect_value connected_session \<noteq> []"
  by (simp_all add: connected_session_def clickConnect_def quiet_env_def initial_session_def
      logLine_def toggleUI_def called_def startsWith_def js_def)

lemma clickProgram_cleanup_erase_fails:
  "eraseFlash_result erase_fails_env = Rejects (js ''Timeout'') \<and>
   \<not> butProgram_disabled (snd (clickProgram erase_fails_env connected_session)) \<and>
   TransportDisconnect \<in> set (new_calls connected_session (snd (clickProgram erase_fails_env connected_session))) \<and>
   transport (snd (clickProgram erase_fails_env connected_session)) = None \<and>
   PortClose \<in> set (new_calls connected_session (snd (clickProgram erase_fails_env connected_session))) \<and>
   fst (clickProgram erase_fails_env connected_session) = Returned \<and>
   port (snd (clickProgram erase_fails_env connected_session)) = None"
proof -
  have e: "confirm_result erase_fails_env" "disconnect_result erase_fails_env = Resolves"
    "close_result erase_fails_env = Resolves" "port_readable erase_fails_env"
    "eraseFlash_result erase_fails_env = Rejects (js ''Timeout'')"
    by (simp_all add: erase_fails_env_def quiet_env_def)
  have p: "port connected_session \<noteq> None"
    by (simp add: connected_session_fields)
  show ?thesis
    using clickProgram_cleanup [OF connected_session_program(1,3) e(1)] e p
    by simp
qed

theorem program_sequence_order_witness:
  "filter flash_step (new_calls connected_session (snd (clickProgram image_env connected_session)))
     = [EraseFlash, Fetch (js ''firmware/ideaboardfirmware03202025.bin''),
        WriteFlash \<lparr>fileArray = [\<lparr>data = [0xE9, 0x00, 0xFF], address = 0\<rparr>],
                    flashSize = js ''keep'', eraseAll = False, compress = True\<rparr>]"
proof -
  have e: "confirm_result image_env" "main_result image_env = Resolves"
    "eraseFlash_result image_env = Resolves"
    "fetch_result image_env = Response True (Inr [0xE9, 0x00, 0xFF])"
    by (simp_all add: image_env_def quiet_env_def)
  have d: "arrayBufferToBinaryString [0xE9, 0x00, 0xFF] = [0xE9, 0x00, 0xFF]"
    by (simp add: arrayBufferToBinaryString_map fromCharCode_def)
  show ?thesis
    using program_sequence_order [OF connected_session_program(1,3) e(1), of "[0xE9, 0x00, 0xFF]"] e d
    by (simp add: connected_session_program(2))
qed


section \<open>The cleaner on lines of sequences and text\<close>

subsection \<open>Lines of sequences and text\<close>

lemma flat_simps [simp]: "flat [] = []" "flat (tok # toks) = render tok @ flat toks"
  by (simp_all add: flat_def)

subsection \<open>Matching\<close>

lemma rmatch_lazy_found:
  assumes "\<forall>c \<in> set xs. p c \<and> \<not> q c" and "q t"
  shows "rmatch [ManyLazy p, One q] (xs @ t # s) = Some (Suc (length xs))"
  using assms by (induction xs) simp_all

lemma rmatch_lazy_bel:
  assumes "\<not> bel_ahead s"
  shows "rmatch [ManyLazy dot, One (is_char 0x07)] s = None"
  using assms by (induction s) (simp_all add: is_char_def)

lemma rmatch_greedy_run:
  assumes "\<forall>c \<in> set xs. p c" and "\<not> p t" and "q t"
  shows "rmatch [ManyGreedy p, One q] (xs @ t # s) = Some (Suc (length xs))"
  using assms by (induction xs) simp_all

lemma js_replace_match:
  assumes "rmatch re (c # cs @ s) = Some (Suc (length cs))"
  shows "js_replace re [] (c # cs @ s) = js_replace re [] s"
  using assms by simp

lemma js_replace_miss:
  assumes "rmatch re (c # s) = None"
  shows "js_replace re rep (c # s) = c # js_replace re rep s"
  using assms by simp

subsection \<open>Facts about characters\<close>

lemma esc_facts [simp]:
  "is_char 0x1B 0x1B" "\<not> is_char 0x1B 0x5D" "\<not> is_char 0x1B 0x30" "\<not> is_char 0x1B 0x3B"
  "\<not> is_char 0x1B 0x07" "\<not> is_char 0x1B 0x5C" "\<not> is_char 0x1B 0x5B"
  "\<not> is_char 0x5B 0x5D" "\<not> is_char 0x5B 0x5C" "\<not> is_char 0x5D 0x5B" "\<not> is_char 0x5D 0x5C"
  "is_char 0x5B 0x5B" "is_char 0x5D 0x5D" "is_char 0x30 0x30" "is_char 0x3B 0x3B"
  "is_char 0x07 0x07" "is_char 0x5C 0x5C" "dot 0x1B" "\<not> is_char 0x07 0x1B" "\<not> is_char 0x07 0x5C"
  "\<not> is_char 0x5C 0x1B" "control_byte 0x07"
  "\<not> is_char 0x07 0x5B" "\<not> is_char 0x07 0x5D" "\<not> is_char 0x07 0x30" "\<not> is_char 0x07 0x3B"
  by (simp_all add: is_char_def dot_def control_byte_def)

lemma param_not_esc: "digit_or_semicolon c \<Longrightarrow> \<not> is_char 0x1B c"
  by (auto simp: is_char_def digit_or_semicolon_def)

lemma param_not_bel: "digit_or_semicolon c \<Longrightarrow> \<not> is_char 0x07 c"
  by (auto simp: is_char_def digit_or_semicolon_def)

lemma letter_not_esc: "ascii_letter c \<Longrightarrow> \<not> is_char 0x1B c"
  by (auto simp: is_char_def ascii_letter_def)

lemma letter_not_bel: "ascii_letter c \<Longrightarrow> \<not> is_char 0x07 c"
  by (auto simp: is_char_def ascii_letter_def)


lemma letter_not_param:
  assumes "ascii_letter c"
  shows "\<not> digit_or_semicolon c"
proof -
  have "(0x41 :: jschar) \<le> 0x61"
    by simp
  with assms have low: "0x41 \<le> c"
    unfolding ascii_letter_def by (metis order_trans)
  have "\<not> c \<le> 0x39"
  proof
    assume "c \<le> 0x39"
    with low have "(0x41 :: jschar) \<le> 0x39"
      by (rule order_trans)
    then show False
      by simp
  qed
  moreover have "c \<noteq> 0x3B"
    using low by auto
  ultimately show ?thesis
    by (simp add: digit_or_semicolon_def)
qed



lemma param_dot: "digit_or_semicolon c \<Longrightarrow> dot c"
  by (auto simp: dot_def digit_or_semicolon_def)

lemma letter_dot: "ascii_letter c \<Longrightarrow> dot c"
  by (auto simp: dot_def ascii_letter_def)

subsection \<open>A BEL ahead\<close>

lemma bel_ahead_skip:
  assumes "\<forall>c \<in> set xs. dot c \<and> c \<noteq> 0x07"
  shows "bel_ahead (xs @ s) = bel_ahead s"
  using assms by (induction xs) simp_all

lemma bel_ahead_cong:
  assumes "bel_ahead a = bel_ahead b"
  shows "bel_ahead (xs @ a) = bel_ahead (xs @ b)"
  using assms by (induction xs) simp_all

lemma bel_ahead_csi:
  assumes "wf_token (Csi ps f)"
  shows "bel_ahead (render (Csi ps f) @ s) = bel_ahead s"
proof -
  have p: "dot c \<and> c \<noteq> 0x07" if "c \<in> set ps" for c
    using that assms param_dot [of c] param_not_bel [of c] by (simp add: is_char_def)
  have f: "dot f \<and> f \<noteq> 0x07"
    using assms letter_dot [of f] letter_not_bel [of f] by (simp add: is_char_def)
  have b: "dot (0x1B :: jschar) \<and> (0x1B :: jschar) \<noteq> 0x07" "dot (0x5B :: jschar) \<and> (0x5B :: jschar) \<noteq> 0x07"
    by (simp_all add: dot_def)
  have "\<forall>c \<in> set (0x1B # 0x5B # ps @ [f]). dot c \<and> c \<noteq> 0x07"
    using p f b by auto
  then have "bel_ahead ((0x1B # 0x5B # ps @ [f]) @ s) = bel_ahead s"
    by (rule bel_ahead_skip)
  then show ?thesis
    by simp
qed

lemma bel_ahead_without_csi:
  assumes "\<forall>tok \<in> set toks. wf_token tok"
  shows "bel_ahead (flat (filter (\<lambda>tok. \<not> is_Csi tok) toks)) = bel_ahead (flat toks)"
  using assms
proof (induction toks)
  case Nil
  show ?case by simp
next
  case (Cons tok toks)
  show ?case
  proof (cases "is_Csi tok")
    case True
    then obtain ps f where "tok = Csi ps f"
      by (cases tok) simp_all
    with Cons show ?thesis
      by (simp add: bel_ahead_csi del: render.simps)
  next
    case False
    have "bel_ahead (flat (filter (\<lambda>tok. \<not> is_Csi tok) toks)) = bel_ahead (flat toks)"
      using Cons by simp
    then have "bel_ahead (render tok @ flat (filter (\<lambda>tok. \<not> is_Csi tok) toks))
        = bel_ahead (render tok @ flat toks)"
      by (rule bel_ahead_cong)
    with False show ?thesis
      by simp
  qed
qed

subsection \<open>An ESC that starts no sequence\<close>

lemma plain_start_flat:
  assumes "plain_start toks"
  shows "flat toks = [] \<or> (hd (flat toks) \<noteq> 0x5B \<and> hd (flat toks) \<noteq> 0x5D)"
  using assms by (induction toks rule: plain_start.induct) simp_all

lemma plain_start_filter:
  assumes "plain_start toks" and "\<forall>tok. is_Text tok \<or> is_Esc tok \<longrightarrow> P tok"
  shows "plain_start (filter P toks)"
  using assms by (induction toks rule: plain_start.induct) simp_all

lemma esc_ok_filter:
  assumes "esc_ok toks" and "\<forall>tok. is_Text tok \<or> is_Esc tok \<longrightarrow> P tok"
  shows "esc_ok (filter P toks)"
  using assms by (induction toks) (simp_all add: plain_start_filter)

lemma st_ok_without_csi:
  assumes "st_ok toks" and "\<forall>tok \<in> set toks. wf_token tok"
  shows "st_ok (filter (\<lambda>tok. \<not> is_Csi tok) toks)"
  using assms by (induction toks) (simp_all add: bel_ahead_without_csi)

subsection \<open>Tokens that a pass keeps\<close>

lemma keep_text:
  assumes "wf_token (Text t)"
  shows "js_replace (One (is_char 0x1B) # as) rep (render (Text t) @ s)
           = render (Text t) @ js_replace (One (is_char 0x1B) # as) rep s"
  using assms by (simp add: js_replace_skip is_char_def)

lemma keep_esc:
  assumes "s = [] \<or> \<not> is_char k (hd s)"
  shows "js_replace (One (is_char 0x1B) # One (is_char k) # as) rep (render Esc @ s)
           = render Esc @ js_replace (One (is_char 0x1B) # One (is_char k) # as) rep s"
  using assms by (cases s) simp_all

lemma keep_csi:
  assumes "wf_token (Csi ps f)" and "\<not> is_char k 0x5B"
  shows "js_replace (One (is_char 0x1B) # One (is_char k) # as) rep (render (Csi ps f) @ s)
           = render (Csi ps f) @ js_replace (One (is_char 0x1B) # One (is_char k) # as) rep s"
proof -
  let ?re = "One (is_char 0x1B) # One (is_char k) # as"
  have "\<forall>c \<in> set (0x5B # ps @ [f]). \<not> is_char 0x1B c"
    using assms(1) by (auto simp: param_not_esc letter_not_esc)
  then have "js_replace ?re rep ((0x5B # ps @ [f]) @ s) = (0x5B # ps @ [f]) @ js_replace ?re rep s"
    by (rule js_replace_skip)
  moreover have "js_replace ?re rep (0x1B # (0x5B # ps @ [f]) @ s)
      = 0x1B # js_replace ?re rep ((0x5B # ps @ [f]) @ s)"
    using assms(2) by simp
  ultimately show ?thesis
    by simp
qed

lemma keep_osc_bel:
  assumes "wf_token (OscBel title)" and "\<not> is_char k 0x5D"
  shows "js_replace (One (is_char 0x1B) # One (is_char k) # as) rep (render (OscBel title) @ s)
           = render (OscBel title) @ js_replace (One (is_char 0x1B) # One (is_char k) # as) rep s"
proof -
  let ?re = "One (is_char 0x1B) # One (is_char k) # as"
  let ?body = "0x5D # 0x30 # 0x3B # title @ [0x07]"
  have "\<forall>c \<in> set ?body. \<not> is_char 0x1B c"
    using assms(1) by (auto simp: is_char_def)
  then have "js_replace ?re rep (?body @ s) = ?body @ js_replace ?re rep s"
    by (rule js_replace_skip)
  moreover have "js_replace ?re rep (0x1B # ?body @ s) = 0x1B # js_replace ?re rep (?body @ s)"
    using assms(2) by simp
  ultimately show ?thesis
    by simp
qed

text \<open>
  A sequence that ends in ESC and backslash is kept by a pass that does not match at its
  first ESC: the second ESC is followed by the backslash, which no pattern has in second
  place.
\<close>

lemma keep_osc_st:
  assumes "wf_token (OscSt title)" and "\<not> is_char k 0x5C"
    and "rmatch (One (is_char 0x1B) # One (is_char k) # as) (render (OscSt title) @ s) = None"
  shows "js_replace (One (is_char 0x1B) # One (is_char k) # as) rep (render (OscSt title) @ s)
           = render (OscSt title) @ js_replace (One (is_char 0x1B) # One (is_char k) # as) rep s"
proof -
  let ?re = "One (is_char 0x1B) # One (is_char k) # as"
  let ?body = "0x5D # 0x30 # 0x3B # title"
  have "\<forall>c \<in> set ?body. \<not> is_char 0x1B c"
    using assms(1) by (auto simp: is_char_def)
  then have 1: "js_replace ?re rep (?body @ 0x1B # 0x5C # s) = ?body @ js_replace ?re rep (0x1B # 0x5C # s)"
    by (rule js_replace_skip)
  have 2: "js_replace ?re rep (0x1B # 0x5C # s) = 0x1B # 0x5C # js_replace ?re rep s"
    using assms(2) by simp
  have "js_replace ?re rep (0x1B # ?body @ 0x1B # 0x5C # s) = 0x1B # js_replace ?re rep (?body @ 0x1B # 0x5C # s)"
    using assms(3) by (intro js_replace_miss) simp
  with 1 2 show ?thesis
    by simp
qed

subsection \<open>The pass of the CSI pattern\<close>

lemma rmatch_csi:
  assumes "wf_token (Csi ps f)"
  shows "rmatch re_csi (0x1B # (0x5B # ps @ [f]) @ s) = Some (Suc (length (0x5B # ps @ [f])))"
proof -
  have "rmatch [ManyGreedy digit_or_semicolon, One ascii_letter] (ps @ f # s) = Some (Suc (length ps))"
    using assms by (intro rmatch_greedy_run) (simp_all add: letter_not_param)
  then show ?thesis
    by (simp add: re_csi_def)
qed

lemma csi_pass_token:
  assumes "wf_token tok" and "is_Esc tok \<longrightarrow> s = [] \<or> hd s \<noteq> 0x5B"
  shows "js_replace re_csi [] (render tok @ s)
           = (if is_Csi tok then [] else render tok) @ js_replace re_csi [] s"
proof (cases tok)
  case (Text t)
  with assms show ?thesis
    unfolding re_csi_def by (simp only: keep_text token.disc if_False)
next
  case (Csi ps f)
  with assms have "js_replace re_csi [] (0x1B # (0x5B # ps @ [f]) @ s) = js_replace re_csi [] s"
    by (intro js_replace_match rmatch_csi) simp
  with Csi show ?thesis
    by simp
next
  case (OscBel title)
  with assms show ?thesis
    unfolding re_csi_def by (simp only: keep_osc_bel esc_facts token.disc if_False not_False_eq_True)
next
  case (OscSt title)
  have "rmatch (One (is_char 0x1B) # One (is_char 0x5B) # as) (render (OscSt title) @ s) = None" for as
    by simp
  with OscSt assms show ?thesis
    unfolding re_csi_def by (simp only: keep_osc_st esc_facts token.disc if_False not_False_eq_True)
next
  case Esc
  with assms(2) have "s = [] \<or> \<not> is_char 0x5B (hd s)"
    by (simp add: is_char_def)
  then have "js_replace re_csi [] (render Esc @ s) = render Esc @ js_replace re_csi [] s"
    unfolding re_csi_def by (rule keep_esc)
  with Esc show ?thesis
    by simp
qed

lemma csi_pass:
  assumes "\<forall>tok \<in> set toks. wf_token tok" and "esc_ok toks"
  shows "js_replace re_csi [] (flat toks) = flat (filter (\<lambda>tok. \<not> is_Csi tok) toks)"
  using assms
proof (induction toks)
  case Nil
  show ?case
    by (simp add: re_csi_def)
next
  case (Cons tok toks)
  have "is_Esc tok \<longrightarrow> flat toks = [] \<or> hd (flat toks) \<noteq> 0x5B"
    using Cons.prems(2) plain_start_flat [of toks] by auto
  with Cons show ?case
    by (simp add: csi_pass_token)
qed

subsection \<open>The pass of the OSC pattern that ends in BEL\<close>

lemma rmatch_osc:
  "rmatch [One (is_char 0x1B), One (is_char 0x5D), One (is_char 0x30), One (is_char 0x3B), ManyLazy p, One q]
     (0x1B # 0x5D # 0x30 # 0x3B # s)
   = map_option (\<lambda>n. Suc (Suc (Suc (Suc n)))) (rmatch [ManyLazy p, One q] s)"
  by (simp add: option.map_comp comp_def)

lemma osc_bel_pass_token:
  assumes "wf_token tok" and "is_OscSt tok \<longrightarrow> \<not> bel_ahead s"
    and "is_Esc tok \<longrightarrow> s = [] \<or> hd s \<noteq> 0x5D"
  shows "js_replace re_osc_bel [] (render tok @ s)
           = (if is_OscBel tok then [] else render tok) @ js_replace re_osc_bel [] s"
proof (cases tok)
  case (Text t)
  with assms show ?thesis
    unfolding re_osc_bel_def by (simp only: keep_text token.disc if_False)
next
  case (Csi ps f)
  with assms show ?thesis
    unfolding re_osc_bel_def by (simp only: keep_csi esc_facts token.disc if_False not_False_eq_True)
next
  case (OscBel title)
  have "rmatch [ManyLazy dot, One (is_char 0x07)] (title @ 0x07 # s) = Some (Suc (length title))"
    using assms(1) OscBel by (intro rmatch_lazy_found) (simp_all add: is_char_def)
  then have "rmatch re_osc_bel (0x1B # (0x5D # 0x30 # 0x3B # title @ [0x07]) @ s)
      = Some (Suc (length (0x5D # 0x30 # 0x3B # title @ [0x07])))"
    unfolding re_osc_bel_def by (simp add: rmatch_osc)
  then have "js_replace re_osc_bel [] (0x1B # (0x5D # 0x30 # 0x3B # title @ [0x07]) @ s)
      = js_replace re_osc_bel [] s"
    by (rule js_replace_match)
  with OscBel show ?thesis
    by simp
next
  case (OscSt title)
  have "\<forall>c \<in> set (title @ [0x1B, 0x5C]). dot c \<and> c \<noteq> 0x07"
    using assms(1) OscSt by (auto simp: dot_def)
  then have "bel_ahead ((title @ [0x1B, 0x5C]) @ s) = bel_ahead s"
    by (rule bel_ahead_skip)
  with assms(2) OscSt have "\<not> bel_ahead (title @ 0x1B # 0x5C # s)"
    by simp
  then have "rmatch [ManyLazy dot, One (is_char 0x07)] (title @ 0x1B # 0x5C # s) = None"
    by (rule rmatch_lazy_bel)
  then have "rmatch ([One (is_char 0x1B), One (is_char 0x5D)]
               @ [One (is_char 0x30), One (is_char 0x3B), ManyLazy dot, One (is_char 0x07)])
               (render (OscSt title) @ s) = None"
    by (simp add: rmatch_osc)
  with OscSt assms(1) show ?thesis
    unfolding re_osc_bel_def
    by (simp only: keep_osc_st esc_facts token.disc if_False not_False_eq_True append.simps)
next
  case Esc
  with assms(3) have "s = [] \<or> \<not> is_char 0x5D (hd s)"
    by (simp add: is_char_def)
  then have "js_replace re_osc_bel [] (render Esc @ s) = render Esc @ js_replace re_osc_bel [] s"
    unfolding re_osc_bel_def by (rule keep_esc)
  with Esc show ?thesis
    by simp
qed

lemma osc_bel_pass:
  assumes "\<forall>tok \<in> set toks. wf_token tok" and "st_ok toks" and "esc_ok toks"
  shows "js_replace re_osc_bel [] (flat toks) = flat (filter (\<lambda>tok. \<not> is_OscBel tok) toks)"
  using assms
proof (induction toks)
  case Nil
  show ?case
    by (simp add: re_osc_bel_def)
next
  case (Cons tok toks)
  have "is_Esc tok \<longrightarrow> flat toks = [] \<or> hd (flat toks) \<noteq> 0x5D"
    using Cons.prems(3) plain_start_flat [of toks] by auto
  with Cons show ?case
    by (simp add: osc_bel_pass_token)
qed

subsection \<open>The pass of the OSC pattern that ends in a backslash\<close>

lemma osc_backslash_pass_token:
  assumes "wf_token tok" and "\<not> is_OscBel tok"
    and "is_Esc tok \<longrightarrow> s = [] \<or> hd s \<noteq> 0x5D"
  shows "js_replace re_osc_backslash [] (render tok @ s)
           = (if is_OscSt tok then [] else render tok) @ js_replace re_osc_backslash [] s"
proof (cases tok)
  case (Text t)
  with assms show ?thesis
    unfolding re_osc_backslash_def by (simp only: keep_text token.disc if_False)
next
  case (Csi ps f)
  with assms show ?thesis
    unfolding re_osc_backslash_def
    by (simp only: keep_csi esc_facts token.disc if_False not_False_eq_True)
next
  case (OscBel title)
  with assms show ?thesis
    by simp
next
  case (OscSt title)
  have "\<forall>c \<in> set (title @ [0x1B]). dot c \<and> \<not> is_char 0x5C c"
    using assms(1) OscSt by (auto simp: is_char_def)
  then have "rmatch [ManyLazy dot, One (is_char 0x5C)] ((title @ [0x1B]) @ 0x5C # s)
      = Some (Suc (length (title @ [0x1B])))"
    by (rule rmatch_lazy_found) simp
  then have "rmatch re_osc_backslash (0x1B # (0x5D # 0x30 # 0x3B # title @ [0x1B, 0x5C]) @ s)
      = Some (Suc (length (0x5D # 0x30 # 0x3B # title @ [0x1B, 0x5C])))"
    unfolding re_osc_backslash_def by (simp add: rmatch_osc)
  then have "js_replace re_osc_backslash [] (0x1B # (0x5D # 0x30 # 0x3B # title @ [0x1B, 0x5C]) @ s)
      = js_replace re_osc_backslash [] s"
    by (rule js_replace_match)
  with OscSt show ?thesis
    by simp
next
  case Esc
  with assms(3) have "s = [] \<or> \<not> is_char 0x5D (hd s)"
    by (simp add: is_char_def)
  then have "js_replace re_osc_backslash [] (render Esc @ s)
      = render Esc @ js_replace re_osc_backslash [] s"
    unfolding re_osc_backslash_def by (rule keep_esc)
  with Esc show ?thesis
    by simp
qed

lemma osc_backslash_pass:
  assumes "\<forall>tok \<in> set toks. wf_token tok \<and> \<not> is_OscBel tok" and "esc_ok toks"
  shows "js_replace re_osc_backslash [] (flat toks) = flat (filter (\<lambda>tok. \<not> is_OscSt tok) toks)"
  using assms
proof (induction toks)
  case Nil
  show ?case
    by (simp add: re_osc_backslash_def)
next
  case (Cons tok toks)
  have "is_Esc tok \<longrightarrow> flat toks = [] \<or> hd (flat toks) \<noteq> 0x5D"
    using Cons.prems(2) plain_start_flat [of toks] by auto
  with Cons show ?case
    by (simp add: osc_backslash_pass_token)
qed

subsection \<open>The pass of the OSC pattern that ends in either\<close>

lemma osc_either_pass:
  assumes "\<forall>tok \<in> set toks. wf_token tok \<and> (is_Text tok \<or> is_Esc tok)" and "esc_ok toks"
  shows "js_replace re_osc_either [] (flat toks) = flat toks"
  using assms
proof (induction toks)
  case Nil
  show ?case
    by (simp add: re_osc_either_def)
next
  case (Cons tok toks)
  then have IH: "js_replace re_osc_either [] (flat toks) = flat toks"
    by simp
  show ?case
  proof (cases tok)
    case (Text t)
    with Cons.prems IH show ?thesis
      unfolding re_osc_either_def flat_simps by (simp only: keep_text list.set_intros)
  next
    case Esc
    have "flat toks = [] \<or> \<not> is_char 0x5D (hd (flat toks))"
      using Cons.prems(2) Esc plain_start_flat [of toks] by (auto simp: is_char_def)
    then have "js_replace re_osc_either [] (render Esc @ flat toks)
        = render Esc @ js_replace re_osc_either [] (flat toks)"
      unfolding re_osc_either_def by (rule keep_esc)
    with Esc IH show ?thesis
      by simp
  qed (use Cons.prems in auto)
qed

subsection \<open>The cleaner on a line of sequences and text\<close>

lemma text_and_esc:
  "filter (\<lambda>c. \<not> control_byte c)
     (flat (filter (\<lambda>tok. \<not> is_OscSt tok) (filter (\<lambda>tok. \<not> is_OscBel tok) (filter (\<lambda>tok. \<not> is_Csi tok) toks))))
     = filter (\<lambda>c. \<not> control_byte c) (concat (map text_of toks))"
proof (induction toks)
  case Nil
  show ?case by simp
next
  case (Cons tok toks)
  then show ?case
    by (cases tok) (simp_all add: control_byte_esc)
qed

lemma clean_wf_line:
  assumes "wf_line toks"
  shows "cleanSerialOutput (flat toks) = filter (\<lambda>c. \<not> control_byte c) (concat (map text_of toks))"
proof -
  let ?t1 = "filter (\<lambda>tok. \<not> is_Csi tok) toks"
  let ?t2 = "filter (\<lambda>tok. \<not> is_OscBel tok) ?t1"
  let ?t3 = "filter (\<lambda>tok. \<not> is_OscSt tok) ?t2"
  have wf: "\<forall>tok \<in> set toks. wf_token tok" and st: "st_ok toks" and esc: "esc_ok toks"
    using assms by (simp_all add: wf_line_def)
  have esc1: "esc_ok ?t1"
    using esc by (rule esc_ok_filter) auto
  have esc2: "esc_ok ?t2"
    using esc1 by (rule esc_ok_filter) auto
  have esc3: "esc_ok ?t3"
    using esc2 by (rule esc_ok_filter) auto
  have 1: "js_replace re_csi [] (flat toks) = flat ?t1"
    using wf esc by (rule csi_pass)
  have 2: "js_replace re_osc_bel [] (flat ?t1) = flat ?t2"
    using wf st esc1 by (intro osc_bel_pass st_ok_without_csi) simp_all
  have 3: "js_replace re_osc_backslash [] (flat ?t2) = flat ?t3"
    using wf esc2 by (intro osc_backslash_pass) simp_all
  have kinds: "\<forall>tok \<in> set ?t3. wf_token tok \<and> (is_Text tok \<or> is_Esc tok)"
  proof
    fix tok assume "tok \<in> set ?t3"
    then have "tok \<in> set toks" "\<not> is_Csi tok" "\<not> is_OscBel tok" "\<not> is_OscSt tok"
      by simp_all
    with wf have "wf_token tok" and "is_Text tok \<or> is_Esc tok"
      by (blast, cases tok) simp_all
    then show "wf_token tok \<and> (is_Text tok \<or> is_Esc tok)"
      by simp
  qed
  have 4: "js_replace re_osc_either [] (flat ?t3) = flat ?t3"
    using kinds esc3 by (rule osc_either_pass)
  show ?thesis
    unfolding cleanSerialOutput_filter 1 2 3 4 by (rule text_and_esc)
qed

text \<open>
  C7 (as amended): the cleaner is, in this order, the removal of every match of the CSI
  pattern (ESC, an opening bracket, digits and semicolons, a letter), of the title pattern
  that ends at the first BEL, of the one that ends at the first backslash, of the one that
  ends at the first of the two, and of every control byte of the class; the two
  replacements of line endings that follow change nothing. On a line of pieces (text
  without ESC, printable or not; such CSI sequences; title sequences that end in BEL or in
  ESC and backslash; an ESC that starts no sequence), in any number and order, where after
  a title sequence that ends in ESC and backslash no BEL stands ahead in the rest of the
  line and every lone ESC is followed by nothing, by another lone ESC or by text that does
  not begin with a bracket, the result is the text of the line without its control bytes.
  For every input the result holds no ESC.
\<close>

theorem clean_line_of_sequences:
  "cleanSerialOutput s
     = filter (\<lambda>c. \<not> control_byte c)
         (js_replace re_osc_either []
           (js_replace re_osc_backslash []
             (js_replace re_osc_bel []
               (js_replace re_csi [] s)))) \<and>
   (wf_line toks \<longrightarrow>
      cleanSerialOutput (flat toks) = filter (\<lambda>c. \<not> control_byte c) (concat (map text_of toks))) \<and>
   (\<forall>c \<in> set (cleanSerialOutput s). c \<noteq> 0x1B)"
proof (intro conjI impI)
  show "cleanSerialOutput s
     = filter (\<lambda>c. \<not> control_byte c)
         (js_replace re_osc_either []
           (js_replace re_osc_backslash []
             (js_replace re_osc_bel []
               (js_replace re_csi [] s))))"
    by (rule cleanSerialOutput_filter)
next
  assume "wf_line toks"
  then show "cleanSerialOutput (flat toks) = filter (\<lambda>c. \<not> control_byte c) (concat (map text_of toks))"
    by (rule clean_wf_line)
next
  show "\<forall>c \<in> set (cleanSerialOutput s). c \<noteq> 0x1B"
    using cleanSerialOutput_no_control [of s] control_byte_esc by auto
qed

theorem clean_line_of_sequences_witness:
  "cleanSerialOutput
     (0x1B # js ''[2Khello'' @ 0x09 # js '' '' @ 0x1B # js '']0;title'' @ 0x07 # js ''world''
        @ 0x1B # js '']0;t2'' @ 0x1B # 0x5C # 0x1B # js ''[0;1m'' @ 0x1B # js ''!'' @ [0x0D])
     = js ''hello world!'' \<and>
   (0x68 :: jschar) \<in> set (cleanSerialOutput
     (0x1B # js ''[2Khello'' @ 0x09 # js '' '' @ 0x1B # js '']0;title'' @ 0x07 # js ''world''
        @ 0x1B # js '']0;t2'' @ 0x1B # 0x5C # 0x1B # js ''[0;1m'' @ 0x1B # js ''!'' @ [0x0D])) \<and>
   (0x68 :: jschar) \<noteq> 0x1B"
proof -
  let ?toks = "[Csi (js ''2'') 0x4B, Text (js ''hello'' @ 0x09 # js '' ''), OscBel (js ''title''),
                Text (js ''world''), OscSt (js ''t2''), Csi (js ''0;1'') 0x6D, Esc,
                Text (js ''!'' @ [0x0D])]"
  let ?s = "0x1B # js ''[2Khello'' @ 0x09 # js '' '' @ 0x1B # js '']0;title'' @ 0x07 # js ''world''
        @ 0x1B # js '']0;t2'' @ 0x1B # 0x5C # 0x1B # js ''[0;1m'' @ 0x1B # js ''!'' @ [0x0D]"
  have wf: "wf_line ?toks"
    by (simp add: wf_line_def js_def dot_def digit_or_semicolon_def ascii_letter_def)
  have f: "flat ?toks = ?s"
    by (simp add: js_def)
  have p: "filter (\<lambda>c. \<not> control_byte c) (concat (map text_of ?toks)) = js ''hello world!''"
    by (simp add: js_def control_byte_def)
  have "cleanSerialOutput (flat ?toks)
      = filter (\<lambda>c. \<not> control_byte c) (concat (map text_of ?toks))"
    using clean_line_of_sequences [of ?s ?toks] wf by blast
  then have "cleanSerialOutput ?s = js ''hello world!''"
    by (simp only: f p)
  moreover have "\<forall>c \<in> set (cleanSerialOutput ?s). c \<noteq> 0x1B"
    using clean_line_of_sequences [of ?s ?toks] by blast
  ultimately show ?thesis
    by (simp add: js_def)
qed

text \<open>
  What the pieces of such a line exclude, each with its residue or its loss: a CSI
  sequence with a parameter byte other than a digit or a semicolon leaves all but its ESC;
  a title sequence that ends in BEL after one that ends in ESC and backslash takes the
  text between the two with it; a backslash in a title ends the match there, and the rest
  of the title and the backslash of the terminator stay; a carriage return in a title
  stops every title pattern; an ESC before a CSI sequence joins the text that follows the
  sequence.
\<close>

theorem clean_residue_counterexample:
  "cleanSerialOutput (0x1B # js ''[?25lok'') = js ''[?25lok'' \<and>
   cleanSerialOutput (0x1B # js '']0;a'' @ 0x1B # 0x5C # js ''KEEP'' @ 0x1B # js '']0;b'' @ [0x07]) = [] \<and>
   cleanSerialOutput (0x1B # js '']0;C:'' @ 0x5C # js ''x'' @ [0x1B, 0x5C]) = js ''x'' @ [0x5C] \<and>
   cleanSerialOutput (0x1B # js '']0;a'' @ 0x0D # js ''b'' @ [0x07]) = js '']0;ab'' \<and>
   cleanSerialOutput (0x1B # 0x1B # js ''[0m]0;a'' @ 0x5C # js ''b'') = js ''b''"
  by (simp add: clean_eval)


section \<open>Lines that clean to nothing\<close>






section \<open>A device lost while monitoring\<close>

lemma connection_logLine [simp]: "connection (logLine t s) = connection s"
  by (simp add: connection_def logLine_def Let_def split: option.splits elem_ref.splits)

lemma connection_logError [simp]: "connection (logError t s) = connection s"
  by (simp add: connection_def logError_def)

lemma connection_buffer [simp]: "connection (s\<lparr>buffer := b\<rparr>) = connection s"
  by (simp add: connection_def)

lemma reader_logLine [simp]: "reader (logLine t s) = reader s"
  by (simp add: logLine_def Let_def split: option.splits elem_ref.splits)

lemma reader_logError [simp]: "reader (logError t s) = reader s"
  by (simp add: logError_def)

lemma clickTerminal_lines_connection [simp]:
  "connection (clickTerminal_lines s) = connection s"
proof (induction s rule: clickTerminal_lines.induct)
  case (1 s)
  show ?case
  proof (cases "indexOf (buffer s) 0x0A = -1")
    case True
    then show ?thesis
      by (subst clickTerminal_lines.simps) simp
  next
    case False
    from 1 [OF refl False refl refl refl] False show ?thesis
      by (subst clickTerminal_lines.simps) (simp add: Let_def)
  qed
qed

lemma clickTerminal_lines_reader [simp]:
  "reader (clickTerminal_lines s) = reader s"
proof (induction s rule: clickTerminal_lines.induct)
  case (1 s)
  show ?case
  proof (cases "indexOf (buffer s) 0x0A = -1")
    case True
    then show ?thesis
      by (subst clickTerminal_lines.simps) simp
  next
    case False
    from 1 [OF refl False refl refl refl] False show ?thesis
      by (subst clickTerminal_lines.simps) (simp add: Let_def)
  qed
qed

lemma logLine_page [simp]:
  "device (logLine t s) = device s" "butConnect_textContent (logLine t s) = butConnect_textContent s"
  "butTerminal_disabled (logLine t s) = butTerminal_disabled s"
  by (simp_all add: logLine_def Let_def split: option.splits elem_ref.splits)

lemma loop_entry_connection [simp]:
  "connection (loop_entry s) = connection s" "reader (loop_entry s) = Some ()"
  by (simp_all add: loop_entry_def connection_def called_def log_clear_def)

lemma clickTerminal_loop_lost_device:
  assumes "isMonitoring s" and "includes_js message (js ''device has been lost'')"
  shows "\<exists>s1. isMonitoring s1 \<and> connection s1 = connection s \<and> reader s1 = reader s \<and>
           clickTerminal_loop (map Chunk cs @ ReadRejects message # rest) s
             = (Returned, logError (js ''Device lost, please reconnect and try again.'') s1)"
  using assms(1)
proof (induction cs arbitrary: s)
  case Nil
  with assms(2) show ?case
    by auto
next
  case (Cons c cs)
  let ?s1 = "clickTerminal_lines (s\<lparr>buffer := buffer s @ TextDecoder_decode c\<rparr>)"
  have "isMonitoring ?s1"
    using Cons.prems by simp
  from Cons.IH [OF this] Cons.prems show ?case
    by simp
qed

text \<open>
  \<^verbatim>\<open>stopMonitoring\<close> on an errored stream: \<^verbatim>\<open>await reader.cancel()\<close> at line 239 rejects, and
  lines 240 to 252 are not reached.
\<close>

lemma stopMonitoring_cancel_rejects:
  assumes "cancel_result e = Rejects stored" and "reader s \<noteq> None"
  shows "stopMonitoring e s
           = (Threw stored,
              called ReaderCancel (s\<lparr>isMonitoring := False, butTerminal_textContent := js ''Terminal'',
                                     butTerminal_backgroundColor := []\<rparr>))"
  using assms by (simp add: stopMonitoring_def and_then_def awaited_def)

lemma clickTerminal_lost_device:
  assumes "\<not> isMonitoring s" and "port s \<noteq> None" and "open_result e = Resolves"
    and "reads e = map Chunk cs @ ReadRejects message # rest"
    and "includes_js message (js ''device has been lost'')"
    and "cancel_result e = Rejects stored"
  shows "\<exists>s1. connection s1 = connection s \<and> reader s1 = Some () \<and>
           fst (clickTerminal_loop (reads e) (loop_entry s)) = Returned \<and>
           clickTerminal e s
             = (Threw stored,
                called ReaderCancel
                  ((logError (js ''Device lost, please reconnect and try again.'') s1)
                     \<lparr>isMonitoring := False, butTerminal_textContent := js ''Terminal'',
                      butTerminal_backgroundColor := []\<rparr>))"
proof -
  obtain s1 where s1: "isMonitoring s1" "connection s1 = connection s" "reader s1 = Some ()"
    and l: "clickTerminal_loop (reads e) (loop_entry s)
           = (Returned, logError (js ''Device lost, please reconnect and try again.'') s1)"
    using clickTerminal_loop_lost_device [OF _ assms(5), of "loop_entry s" cs rest] assms(4)
    by auto
  let ?s2 = "logError (js ''Device lost, please reconnect and try again.'') s1"
  have "clickTerminal e s = stopMonitoring e ?s2"
    using assms(1,2,3) l s1(1)
    by (auto simp: clickTerminal_def clickTerminal_try_Resolves clickTerminal_finally_def)
  also have "\<dots> = (Threw stored,
                called ReaderCancel
                  (?s2\<lparr>isMonitoring := False, butTerminal_textContent := js ''Terminal'',
                      butTerminal_backgroundColor := []\<rparr>))"
    using s1(3) by (intro stopMonitoring_cancel_rejects [OF assms(6)]) simp
  finally show ?thesis
    using s1(2,3) l by auto
qed



lemma connected_session_page:
  "transport connected_session = Some 1"
  by (simp add: connected_session_def clickConnect_def quiet_env_def initial_session_def
      logLine_def toggleUI_def called_def startsWith_def js_def)


text \<open>
  What keeps the connection: the handler itself ends by the rejection of
  \<^verbatim>\<open>reader.cancel()\<close>, which leaves the \<^verbatim>\<open>finally\<close> block before the reset of the port and the
  device; the reader is still set and the notice of the lost device is the last entry of
  the log. With a reader whose \<^verbatim>\<open>cancel()\<close> resolves the block would run to its end and
  reset the port and the device.
\<close>

lemma device_lost_handler_rejects:
  assumes "\<not> isMonitoring s" and "port s \<noteq> None" and "open_result e = Resolves"
    and "reads e = map Chunk cs @ ReadRejects message # rest"
    and "includes_js message (js ''device has been lost'')"
    and "cancel_result e = Rejects stored"
  shows "fst (clickTerminal e s) = Threw stored"
    and "reader (snd (clickTerminal e s)) = Some ()"
    and \<open>last (log (snd (clickTerminal e s)))
           = HtmlDiv (js ''<span style="color: red;">Error: Device lost, please reconnect and try again.</span>'')\<close>
proof -
  obtain s1 where c: "reader s1 = Some ()"
    and r: "clickTerminal e s
             = (Threw stored,
                called ReaderCancel
                  ((logError (js ''Device lost, please reconnect and try again.'') s1)
                     \<lparr>isMonitoring := False, butTerminal_textContent := js ''Terminal'',
                      butTerminal_backgroundColor := []\<rparr>))"
    using clickTerminal_lost_device [OF assms] by blast
  show "fst (clickTerminal e s) = Threw stored"
    unfolding r by simp
  show "reader (snd (clickTerminal e s)) = Some ()"
    unfolding r using c by (simp add: called_def)
  show \<open>last (log (snd (clickTerminal e s)))
           = HtmlDiv (js ''<span style="color: red;">Error: Device lost, please reconnect and try again.</span>'')\<close>
    unfolding r by (simp add: called_def logError_def js_def)
qed

section \<open>A cleanup that fails\<close>

lemma clickProgram_finally_disconnect_rejects:
  assumes "disconnect_result e = Rejects message" and "transport s \<noteq> None"
  shows "clickProgram_finally e s
           = (Threw message, called TransportDisconnect (s\<lparr>butProgram_disabled := False\<rparr>))"
  using assms by (simp add: clickProgram_finally_def and_then_def awaited_def)

lemma clickProgram_disconnect_rejects:
  assumes "transport s \<noteq> None" and "firmwareSelect_value s \<noteq> []" and "confirm_result e"
    and "disconnect_result e = Rejects message"
  shows "fst (clickProgram e s) = Threw message"
    and "transport (snd (clickProgram e s)) = transport s"
    and "port (snd (clickProgram e s)) = port s"
    and "\<not> butProgram_disabled (snd (clickProgram e s))"
    and "new_calls s (snd (clickProgram e s))
           = [Confirm, NewESPLoader FLASH_BAUD_RATE, LoaderMain (js ''default_reset'')]
               @ program_steps e (firmwareSelect_value s) @ [TransportDisconnect]"
proof -
  obtain s2 where s2: "clickProgram e s = clickProgram_finally e s2"
    "transport s2 = transport s" "port s2 = port s"
    using clickProgram_started [OF assms(1-3)] by blast
  have r: "clickProgram e s
      = (Threw message, called TransportDisconnect (s2\<lparr>butProgram_disabled := False\<rparr>))"
    unfolding s2(1) using assms(1,4) s2(2)
    by (intro clickProgram_finally_disconnect_rejects) simp_all
  show "fst (clickProgram e s) = Threw message"
    by (simp add: r)
  show "transport (snd (clickProgram e s)) = transport s"
    by (simp add: r s2)
  show "port (snd (clickProgram e s)) = port s"
    by (simp add: r s2)
  show "\<not> butProgram_disabled (snd (clickProgram e s))"
    by (simp add: r)
  show "new_calls s (snd (clickProgram e s))
           = [Confirm, NewESPLoader FLASH_BAUD_RATE, LoaderMain (js ''default_reset'')]
               @ program_steps e (firmwareSelect_value s) @ [TransportDisconnect]"
    using assms(4) by (simp add: clickProgram_new_calls [OF assms(1-3)])
qed

text \<open>
  C2: the cleanup after the programming sequence is to disconnect the transport, close the
  port if it is still open and enable the program action, whatever happened. Here the
  erase fails and \<^verbatim>\<open>transport.disconnect()\<close> is rejected: the rejection leaves the
  \<^verbatim>\<open>finally\<close> block at line 159, so that \<^verbatim>\<open>port.close()\<close> is not called although the port
  is set and readable, the transport and the port stay set, and the handler ends by the
  error. The program action is enabled, its statement being the first of the block.
\<close>

theorem program_cleanup_skipped:
  "eraseFlash_result unplugged_env = Rejects (js ''Timeout'') \<and>
   disconnect_result unplugged_env = Rejects (js ''The device has been lost.'') \<and>
   transport connected_session = Some 1 \<and> port connected_session = Some 1 \<and>
   port_readable unplugged_env \<and>
   fst (clickProgram unplugged_env connected_session) = Threw (js ''The device has been lost.'') \<and>
   transport (snd (clickProgram unplugged_env connected_session)) = Some 1 \<and>
   port (snd (clickProgram unplugged_env connected_session)) = Some 1 \<and>
   new_calls connected_session (snd (clickProgram unplugged_env connected_session))
     = [Confirm, NewESPLoader 921600, LoaderMain (js ''default_reset''), EraseFlash, TransportDisconnect] \<and>
   PortClose \<notin> set (new_calls connected_session (snd (clickProgram unplugged_env connected_session))) \<and>
   \<not> butProgram_disabled (snd (clickProgram unplugged_env connected_session))"
proof -
  have e: "confirm_result unplugged_env" "main_result unplugged_env = Resolves"
    "eraseFlash_result unplugged_env = Rejects (js ''Timeout'')"
    "disconnect_result unplugged_env = Rejects (js ''The device has been lost.'')"
    "port_readable unplugged_env"
    by (simp_all add: unplugged_env_def quiet_env_def)
  note r = clickProgram_disconnect_rejects [OF connected_session_program(1,3) e(1) e(4)]
  have s: "program_steps unplugged_env fw = [EraseFlash]" for fw
    by (simp add: program_steps_def e)
  show ?thesis
    by (simp add: r e s connected_session_fields connected_session_page FLASH_BAUD_RATE_def)
qed
end
